theory Spec2Isabelle
  imports Main "HOL-Library.AList" "HOL-Library.Char_ord" "HOL-Library.List_Lexorder"
begin

section \<open>Python values used by the monitoring pipeline\<close>

text \<open>
  Strings are byte strings; \<open>\<le>\<close> on them is the lexicographic order on character codes,
  which is how Python compares \<open>str\<close> values (UTF-8 keeps the code point order).
  A Python \<open>dict\<close> is an association list in insertion order: \<open>map_of\<close> is \<open>.get\<close>,
  \<open>AList.update\<close> is item assignment (an existing key keeps its place, a new key goes
  last).
\<close>

type_synonym 'v dict = "(string \<times> 'v) list"

definition get :: "string dict \<Rightarrow> string \<Rightarrow> string \<Rightarrow> string" where
  \<comment> \<open>\<open>d.get(key, default)\<close>\<close>
  "get d k dflt = (case map_of d k of None \<Rightarrow> dflt | Some v \<Rightarrow> v)"

definition py_str :: "string option \<Rightarrow> string" where
  \<comment> \<open>how an f-string renders the result of \<open>d.get(key)\<close>\<close>
  "py_str v = (case v of None \<Rightarrow> ''None'' | Some s \<Rightarrow> s)"

subsection \<open>Decimal formatting\<close>

definition digit_char :: "nat \<Rightarrow> char" where
  "digit_char n = ''0123456789'' ! (n mod 10)"

fun digits :: "nat \<Rightarrow> string" where
  "digits n = (if n < 10 then [digit_char n] else digits (n div 10) @ [digit_char n])"

declare digits.simps [simp del]

definition zpad :: "nat \<Rightarrow> nat \<Rightarrow> string" where
  \<comment> \<open>the format \<open>%0wd\<close> (and \<open>:0wd\<close>) on a natural number\<close>
  "zpad w n = replicate (w - length (digits n)) (CHR ''0'') @ digits n"

subsection \<open>\<open>datetime\<close>\<close>

record datetime =
  year :: nat
  month :: nat
  day :: nat
  hour :: nat
  minute :: nat
  second :: nat
  microsecond :: nat

definition is_leap :: "nat \<Rightarrow> bool" where
  "is_leap y = (y mod 4 = 0 \<and> (y mod 100 \<noteq> 0 \<or> y mod 400 = 0))"

definition days_in_month :: "nat \<Rightarrow> nat \<Rightarrow> nat" where
  "days_in_month y m =
     (if m = 2 then (if is_leap y then 29 else 28)
      else if m = 4 \<or> m = 6 \<or> m = 9 \<or> m = 11 then 30 else 31)"

definition valid_datetime :: "datetime \<Rightarrow> bool" where
  "valid_datetime d =
     (1 \<le> year d \<and> year d \<le> 9999 \<and> 1 \<le> month d \<and> month d \<le> 12 \<and>
      1 \<le> day d \<and> day d \<le> days_in_month (year d) (month d) \<and>
      hour d < 24 \<and> minute d < 60 \<and> second d < 60 \<and> microsecond d < 1000000)"

definition dt_fields :: "datetime \<Rightarrow> nat list" where
  "dt_fields d = [year d, month d, day d, hour d, minute d, second d, microsecond d]"

definition dt_le :: "datetime \<Rightarrow> datetime \<Rightarrow> bool" where
  \<comment> \<open>chronological order of naive datetimes\<close>
  "dt_le a b = (dt_fields a \<le> dt_fields b)"

definition dt_less :: "datetime \<Rightarrow> datetime \<Rightarrow> bool" where
  "dt_less a b = (dt_fields a < dt_fields b)"

definition isoformat :: "datetime \<Rightarrow> string" where
  \<comment> \<open>\<open>datetime.isoformat()\<close>: the fraction is printed only when it is not zero\<close>
  "isoformat d =
     zpad 4 (year d) @ ''-'' @ zpad 2 (month d) @ ''-'' @ zpad 2 (day d) @ ''T'' @
     zpad 2 (hour d) @ '':'' @ zpad 2 (minute d) @ '':'' @ zpad 2 (second d) @
     (if microsecond d = 0 then [] else ''.'' @ zpad 6 (microsecond d))"

definition strftime_alert :: "datetime \<Rightarrow> string" where
  \<comment> \<open>\<open>strftime('%Y%m%d_%H%M%S')\<close>\<close>
  "strftime_alert d =
     zpad 4 (year d) @ zpad 2 (month d) @ zpad 2 (day d) @ ''_'' @
     zpad 2 (hour d) @ zpad 2 (minute d) @ zpad 2 (second d)"

definition strftime_dmY :: "bool \<Rightarrow> datetime \<Rightarrow> string" where
  \<comment> \<open>\<open>strftime("%d%m%Y")\<close>; \<open>%Y\<close> is the C library's: glibc prints the year as it is,
      others pad it to four digits, and the flag says which\<close>
  "strftime_dmY pad d =
     zpad 2 (day d) @ zpad 2 (month d) @ (if pad then zpad 4 (year d) else digits (year d))"

datatype error = OverflowError | ValueError | TypeError | IndexError | KeyError | AttributeError
  | RecursionError | ApiError

definition prev_day :: "datetime \<Rightarrow> error + datetime" where
  \<comment> \<open>the calendar day before, same time of day; there is none before 0001-01-01\<close>
  "prev_day d =
     (if 1 < day d then Inr (d\<lparr>day := day d - 1\<rparr>)
      else if 1 < month d
        then Inr (d\<lparr>month := month d - 1, day := days_in_month (year d) (month d - 1)\<rparr>)
      else if 1 < year d then Inr (d\<lparr>year := year d - 1, month := 12, day := 31\<rparr>)
      else Inl OverflowError)"

fun minus_days :: "datetime \<Rightarrow> nat \<Rightarrow> error + datetime" where
  \<comment> \<open>\<open>d - timedelta(days=n)\<close>\<close>
  "minus_days d 0 = Inr d"
| "minus_days d (Suc n) = (case prev_day d of Inl e \<Rightarrow> Inl e | Inr p \<Rightarrow> minus_days p n)"

section \<open>The state of the monitoring system\<close>

type_synonym update = "string dict"
type_synonym updates_db = "update list dict"

record alert_event =
  ev_id :: string
  ev_date :: string
  update_count :: nat
  updates_sent :: bool

type_synonym alerts_db = "alert_event dict"
type_synonym clients = "string dict dict"

datatype log_entry = LogInfo string | LogError string

datatype write_outcome = WriteOk | OpenFails | DumpFails

text \<open>
  A file is \<open>None\<close> when \<open>json.load\<close> on it raises (missing, truncated, not JSON).
  \<open>ticks\<close> counts the calls of \<open>datetime.now()\<close>; \<open>outbox\<close> holds the messages that
  \<open>sendmail\<close> delivered, as (recipient, body).
\<close>

record world =
  regulatory_updates_db :: "updates_db option"
  client_alerts_db :: "alerts_db option"
  clients_db :: "clients option"
  ticks :: nat
  logs :: "log_entry list"
  outbox :: "(string \<times> string) list"

text \<open>
  What the surroundings decide during one cycle: the clock, the scraper's answer
  (\<open>None\<close> when \<open>check_for_updates\<close> raises), whether each write succeeds, whether
  the SMTP conversation for a client (by id) goes through, and the \<open>monitoring\<close> section
  of the configuration.
\<close>

record env =
  clock :: "nat \<Rightarrow> datetime"
  check_for_updates :: "updates_db option"
  updates_write :: write_outcome
  alerts_write :: write_outcome
  smtp_ok :: "string \<Rightarrow> bool"
  monitoring :: "int dict option"

definition datetime_now :: "env \<Rightarrow> world \<Rightarrow> datetime \<times> world" where
  "datetime_now e w = (clock e (ticks w), w\<lparr>ticks := Suc (ticks w)\<rparr>)"

definition logger_info :: "string \<Rightarrow> world \<Rightarrow> world" where
  "logger_info msg w = w\<lparr>logs := logs w @ [LogInfo msg]\<rparr>"

definition logger_error :: "string \<Rightarrow> world \<Rightarrow> world" where
  "logger_error msg w = w\<lparr>logs := logs w @ [LogError msg]\<rparr>"

section \<open>Deduplication and merge (\<open>check_regulatory_updates\<close>, the loop)\<close>

definition title_of :: "update \<Rightarrow> string option" where
  \<comment> \<open>\<open>update.get('title')\<close>\<close>
  "title_of u = map_of u ''title''"

fun is_new :: "update list \<Rightarrow> update \<Rightarrow> bool" where
  \<comment> \<open>the scan over \<open>existing_updates[regulation_type]\<close>\<close>
  "is_new [] update = True"
| "is_new (existing_update # rest) update =
     (if title_of existing_update = title_of update then False else is_new rest update)"

definition records_of :: "updates_db \<Rightarrow> string \<Rightarrow> update list" where
  \<comment> \<open>\<open>existing_updates[regulation_type]\<close>, read after the key has been created\<close>
  "records_of db regulation_type = (case map_of db regulation_type of None \<Rightarrow> [] | Some l \<Rightarrow> l)"

fun merge_updates ::
  "env \<Rightarrow> string \<Rightarrow> update list \<Rightarrow> update list \<times> bool \<times> world \<Rightarrow> update list \<times> bool \<times> world"
where
  \<comment> \<open>the inner loop: \<open>for update in updates\<close>\<close>
  "merge_updates e regulation_type [] s = s"
| "merge_updates e regulation_type (update # updates) (existing, has_new_updates, w) =
     (if is_new existing update then
        (let (t, w1) = datetime_now e w;
             update' = AList.update ''discovered_date'' (isoformat t) update;
             w2 = logger_info (''New update found for '' @ regulation_type @ '': '' @
                               py_str (title_of update)) w1
         in merge_updates e regulation_type updates (existing @ [update'], True, w2))
      else merge_updates e regulation_type updates (existing, has_new_updates, w))"

fun merge_sources ::
  "env \<Rightarrow> updates_db \<Rightarrow> updates_db \<times> bool \<times> world \<Rightarrow> updates_db \<times> bool \<times> world"
where
  \<comment> \<open>the outer loop: \<open>for regulation_type, updates in new_updates.items()\<close>\<close>
  "merge_sources e [] s = s"
| "merge_sources e ((regulation_type, updates) # rest) (existing_updates, has_new_updates, w) =
     (let existing1 = (if regulation_type \<in> fst ` set existing_updates then existing_updates
                       else AList.update regulation_type [] existing_updates);
          (l, h, w1) = merge_updates e regulation_type updates
                         (records_of existing1 regulation_type, has_new_updates, w)
      in merge_sources e rest (AList.update regulation_type l existing1, h, w1))"

section \<open>Alert threshold evaluation (\<open>_check_and_send_alerts\<close>)\<close>

fun count_recent_in :: "update list \<Rightarrow> string \<Rightarrow> nat \<Rightarrow> nat" where
  \<comment> \<open>\<open>for update in regulation_updates\<close>, with \<open>recent_update_count\<close> as accumulator\<close>
  "count_recent_in [] threshold_date recent_update_count = recent_update_count"
| "count_recent_in (update # rest) threshold_date recent_update_count =
     count_recent_in rest threshold_date
       (if get update ''discovered_date'' '''' \<ge> threshold_date
        then recent_update_count + 1 else recent_update_count)"

fun count_recent :: "updates_db \<Rightarrow> string \<Rightarrow> nat \<Rightarrow> nat" where
  \<comment> \<open>\<open>for regulation_type, regulation_updates in updates.items()\<close>\<close>
  "count_recent [] threshold_date recent_update_count = recent_update_count"
| "count_recent ((regulation_type, regulation_updates) # rest) threshold_date recent_update_count =
     count_recent rest threshold_date
       (count_recent_in regulation_updates threshold_date recent_update_count)"

definition alert_threshold :: "env \<Rightarrow> int" where
  \<comment> \<open>\<open>self.config.get('monitoring', {}).get('alert_threshold', 3)\<close>\<close>
  "alert_threshold e =
     (case monitoring e of None \<Rightarrow> 3
      | Some m \<Rightarrow> (case map_of m ''alert_threshold'' of None \<Rightarrow> 3 | Some t \<Rightarrow> t))"

section \<open>Notification (\<open>_send_alerts_to_clients\<close>)\<close>

definition upper_char :: "char \<Rightarrow> char" where
  "upper_char c = (if CHR ''a'' \<le> c \<and> c \<le> CHR ''z'' then char_of (of_char c - (32::nat)) else c)"

definition upper :: "string \<Rightarrow> string" where
  \<comment> \<open>\<open>str.upper()\<close> on ASCII letters\<close>
  "upper s = map upper_char s"

definition sorted_reverse :: "('a \<Rightarrow> 'k::linorder) \<Rightarrow> 'a list \<Rightarrow> 'a list" where
  \<comment> \<open>\<open>sorted(xs, key=f, reverse=True)\<close>: reverse, stable sort, reverse\<close>
  "sorted_reverse f xs = rev (sort_key f (rev xs))"

definition recent_updates :: "update list \<Rightarrow> update list" where
  \<comment> \<open>\<open>sorted(regulation_updates, key=lambda x: x.get('discovered_date', ''), reverse=True)[:3]\<close>\<close>
  "recent_updates regulation_updates =
     take 3 (sorted_reverse (\<lambda>x. get x ''discovered_date'' '''') regulation_updates)"

text \<open>The HTML templates, without the layout whitespace of the source.\<close>

definition html_head :: string where
  \<open>html_head = ''<html><head><style>'' @
     ''body { font-family: Arial, sans-serif; line-height: 1.6; }'' @
     ''.header { background-color: #f8f9fa; padding: 20px; text-align: center; }'' @
     ''.content { padding: 20px; }'' @
     ''.regulation { margin-bottom: 20px; padding: 15px; border-left: 4px solid #007bff; background-color: #f8f9fa; }'' @
     ''.update { margin-bottom: 10px; }'' @
     ''.footer { padding: 20px; text-align: center; font-size: 12px; color: #6c757d; }'' @
     ''</style></head><body><div class="header"><h2>EU Regulatory Compliance Alert</h2>'' @
     ''<p>Important updates to EU regulations that may affect your compliance obligations</p>'' @
     ''</div><div class="content">''\<close>

definition html_tail :: string where
  \<open>html_tail =
     ''<p>These updates may impact your compliance obligations. We recommend reviewing them with your legal team.</p>'' @
     ''<p>If you need assistance assessing the impact of these changes on your business, please reply to this email to schedule a consultation.</p>'' @
     ''</div><div class="footer">'' @
     ''<p>This is an automated alert from the EU Regulatory Compliance Monitoring Service.</p>'' @
     ''<p>To unsubscribe from these alerts, please reply with "UNSUBSCRIBE" in the subject line.</p>'' @
     ''</div></body></html>''\<close>

definition render_update :: "update \<Rightarrow> string" where
  \<open>render_update update =
     ''<div class="update"><h4>'' @ get update ''title'' ''Untitled'' @ ''</h4>'' @
     ''<p><strong>Date:</strong> '' @ get update ''date'' ''Unknown'' @ ''</p>'' @
     ''<p>'' @ get update ''content'' ''No content available'' @ ''</p>'' @
     ''<p><a href="'' @ get update ''url'' ''#'' @ ''">Read more</a></p></div>''\<close>

definition render_regulation :: "string \<times> update list \<Rightarrow> string" where
  \<comment> \<open>one turn of \<open>for regulation_type, regulation_updates in updates.items()\<close>\<close>
  \<open>render_regulation item =
     ''<div class="regulation"><h3>'' @ upper (fst item) @ ''</h3>'' @
     concat (map render_update (recent_updates (snd item))) @ ''</div>''\<close>

definition html_body :: "updates_db \<Rightarrow> string" where
  "html_body updates = html_head @ concat (map render_regulation updates) @ html_tail"

fun send_loop :: "env \<Rightarrow> string \<Rightarrow> clients \<Rightarrow> world \<Rightarrow> world" where
  \<comment> \<open>\<open>for client_id, client_info in clients.items()\<close>, each turn in its own \<open>try\<close>\<close>
  "send_loop e body [] w = w"
| "send_loop e body ((client_id, client_info) # rest) w =
     (if smtp_ok e client_id
      then send_loop e body rest
             (logger_info (''Alert sent to '' @ get client_info ''email'' '''')
                (w\<lparr>outbox := outbox w @ [(get client_info ''email'' '''', body)]\<rparr>))
      else send_loop e body rest
             (logger_error (''Failed to send alert to '' @ get client_info ''email'' '''') w))"

definition send_alerts_to_clients :: "env \<Rightarrow> updates_db \<Rightarrow> clients \<Rightarrow> alerts_db \<Rightarrow> world \<Rightarrow> world" where
  "send_alerts_to_clients e updates clients client_alerts w = send_loop e (html_body updates) clients w"

section \<open>The alert history and the whole cycle\<close>

definition save_alert_history :: "env \<Rightarrow> alerts_db \<Rightarrow> world \<Rightarrow> world" where
  \<comment> \<open>\<open>open(self.client_alerts_db, 'w')\<close> truncates the file before \<open>json.dump\<close> writes\<close>
  "save_alert_history e client_alerts w =
     (case alerts_write e of
        WriteOk \<Rightarrow> logger_info ''Updated alert history'' (w\<lparr>client_alerts_db := Some client_alerts\<rparr>)
      | OpenFails \<Rightarrow> logger_error ''Error saving alert history'' w
      | DumpFails \<Rightarrow> logger_error ''Error saving alert history'' (w\<lparr>client_alerts_db := None\<rparr>))"

definition record_alert :: "env \<Rightarrow> nat \<Rightarrow> alerts_db \<Rightarrow> world \<Rightarrow> alerts_db \<times> world" where
  \<comment> \<open>\<open>client_alerts[alert_id] = {...}\<close>: two readings of the clock\<close>
  "record_alert e recent_update_count client_alerts w =
     (let (t1, w1) = datetime_now e w;
          alert_id = ''alert_'' @ strftime_alert t1;
          (t2, w2) = datetime_now e w1
      in (AList.update alert_id
            \<lparr>ev_id = alert_id, ev_date = isoformat t2, update_count = recent_update_count,
             updates_sent = True\<rparr> client_alerts, w2))"

definition check_and_send_alerts :: "env \<Rightarrow> world \<Rightarrow> error option \<times> world" where
  \<comment> \<open>the first component is the exception that leaves the function, if any\<close>
  "check_and_send_alerts e w =
     (case regulatory_updates_db w of
        None \<Rightarrow> (None, logger_error ''Error loading regulatory updates'' w)
      | Some updates \<Rightarrow>
          (let (client_alerts, w1) =
                 (case client_alerts_db w of
                    Some a \<Rightarrow> (a, w)
                  | None \<Rightarrow> ([], logger_error ''Error loading client alerts'' w));
               (clients, w2) =
                 (case clients_db w1 of
                    Some c \<Rightarrow> (c, w1)
                  | None \<Rightarrow> ([], logger_error ''Error loading clients'' w1));
               (t, w3) = datetime_now e w2
           in case minus_days t 7 of
                Inl err \<Rightarrow> (Some err, w3)
              | Inr threshold \<Rightarrow>
                  (let recent_update_count = count_recent updates (isoformat threshold) 0
                   in if int recent_update_count \<ge> alert_threshold e then
                        (let w4 = logger_info (''Alert threshold reached: '' @
                                    digits recent_update_count @ '' updates in the last 7 days'') w3;
                             w5 = send_alerts_to_clients e updates clients client_alerts w4;
                             (client_alerts', w6) = record_alert e recent_update_count client_alerts w5
                         in (None, save_alert_history e client_alerts' w6))
                      else (None, w3))))"

definition check_regulatory_updates :: "env \<Rightarrow> world \<Rightarrow> (error + bool) \<times> world" where
  \<comment> \<open>\<open>Inr b\<close>: the call returns \<open>b\<close>; \<open>Inl x\<close> would be an exception reaching the caller\<close>
  "check_regulatory_updates e w0 =
     (let w = logger_info ''Checking for regulatory updates...'' w0;
          (existing_updates, w1) =
            (case regulatory_updates_db w of
               Some d \<Rightarrow> (d, w)
             | None \<Rightarrow> ([], logger_error ''Error loading regulatory updates'' w))
      in case check_for_updates e of
           None \<Rightarrow> (Inr False, logger_error ''Error checking for updates'' w1)
         | Some new_updates \<Rightarrow>
             (let (merged, has_new_updates, w2) =
                    merge_sources e new_updates (existing_updates, False, w1)
              in if has_new_updates then
                   (case updates_write e of
                      WriteOk \<Rightarrow>
                        (let w3 = logger_info ''Saved updated regulatory data''
                                    (w2\<lparr>regulatory_updates_db := Some merged\<rparr>);
                             (raised, w4) = check_and_send_alerts e w3
                         in case raised of
                              None \<Rightarrow> (Inr True, w4)
                            | Some err \<Rightarrow> (Inr True, logger_error ''Error saving regulatory updates'' w4))
                    | OpenFails \<Rightarrow> (Inr True, logger_error ''Error saving regulatory updates'' w2)
                    | DumpFails \<Rightarrow>
                        (Inr True, logger_error ''Error saving regulatory updates''
                                     (w2\<lparr>regulatory_updates_db := None\<rparr>)))
                 else (Inr False, w2)))"

section \<open>The date normalizer (\<open>_format_ojdate\<close>)\<close>

text \<open>
  The argument is a \<open>datetime\<close>/\<open>date\<close> object, a string, or any other value.
  Here a \<open>str\<close> is the list of its code points, because \<open>\d\<close>, \<open>int()\<close> and
  \<open>strip()\<close> go by the Unicode character database of the running Python: which code
  points are decimal digits, with what value, and which are white space. Below 128 the
  answer is fixed (the digits \<open>0\<close> to \<open>9\<close>; tab, line feed, vertical tab, form feed,
  carriage return, the four separators \<open>1C\<close> to \<open>1F\<close> and the space); from 128 on it is
  read from a table that is a parameter. So is the one thing \<open>strftime\<close> leaves to the
  C library, whether \<open>%Y\<close> pads a year below 1000.
\<close>

type_synonym pystr = "nat list"

definition ustr :: "string \<Rightarrow> pystr" where
  \<comment> \<open>an ASCII text as a \<open>str\<close>\<close>
  "ustr s = map of_char s"

record runtime =
  decimal :: "nat \<Rightarrow> nat option"
  whitespace :: "nat \<Rightarrow> bool"
  pads_year :: bool

datatype date_input = DateValue datetime | StrValue pystr | OtherValue

definition is_space :: "runtime \<Rightarrow> nat \<Rightarrow> bool" where
  \<comment> \<open>the characters \<open>str.strip()\<close> removes\<close>
  "is_space u c =
     (if c < 128 then c \<in> set [0x09, 0x0A, 0x0B, 0x0C, 0x0D, 0x1C, 0x1D, 0x1E, 0x1F, 0x20]
      else whitespace u c)"

definition strip :: "runtime \<Rightarrow> pystr \<Rightarrow> pystr" where
  "strip u s = rev (dropWhile (is_space u) (rev (dropWhile (is_space u) s)))"

definition digit_value :: "runtime \<Rightarrow> nat \<Rightarrow> nat option" where
  \<comment> \<open>the value of a decimal digit, \<open>None\<close> for every other character\<close>
  "digit_value u c =
     (if c < 128 then (if 48 \<le> c \<and> c \<le> 57 then Some (c - 48) else None) else decimal u c)"

definition is_digit :: "runtime \<Rightarrow> nat \<Rightarrow> bool" where
  \<comment> \<open>\<open>\d\<close> in a pattern that is a \<open>str\<close>\<close>
  "is_digit u c = (digit_value u c \<noteq> None)"

definition int_of_digits :: "runtime \<Rightarrow> pystr \<Rightarrow> nat" where
  \<comment> \<open>\<open>int(s)\<close> on a group matched by \<open>\d{1,2}\<close>\<close>
  "int_of_digits u s =
     foldl (\<lambda>a c. 10 * a + (case digit_value u c of None \<Rightarrow> 0 | Some v \<Rightarrow> v)) 0 s"

fun expect_dash :: "pystr \<Rightarrow> pystr option" where
  "expect_dash [] = None"
| "expect_dash (c # cs) = (if c = 0x2D then Some cs else None)"

definition at_end :: "pystr \<Rightarrow> bool" where
  \<comment> \<open>\<open>$\<close>: the end of the string, or just before a line feed that ends it\<close>
  "at_end r = (r = [] \<or> r = [0x0A])"

definition match_ymd :: "runtime \<Rightarrow> pystr \<Rightarrow> (pystr \<times> pystr \<times> pystr) option" where
  \<comment> \<open>\<open>^(\d{4})-(\d{1,2})-(\d{1,2})$\<close>; neither the dash nor the line feed is a digit, so
      each group is the whole run of digits found there\<close>
  "match_ymd u s =
     (let y = takeWhile (is_digit u) s in
      if length y \<noteq> 4 then None else
      case expect_dash (dropWhile (is_digit u) s) of None \<Rightarrow> None
      | Some r1 \<Rightarrow>
         (let mo = takeWhile (is_digit u) r1 in
          if length mo \<noteq> 1 \<and> length mo \<noteq> 2 then None else
          case expect_dash (dropWhile (is_digit u) r1) of None \<Rightarrow> None
          | Some r2 \<Rightarrow>
             (let da = takeWhile (is_digit u) r2 in
              if (length da = 1 \<or> length da = 2) \<and> at_end (dropWhile (is_digit u) r2)
              then Some (y, mo, da) else None)))"

definition match_dmy :: "runtime \<Rightarrow> pystr \<Rightarrow> (pystr \<times> pystr \<times> pystr) option" where
  \<comment> \<open>\<open>^(\d{1,2})-(\d{1,2})-(\d{4})$\<close>\<close>
  "match_dmy u s =
     (let da = takeWhile (is_digit u) s in
      if length da \<noteq> 1 \<and> length da \<noteq> 2 then None else
      case expect_dash (dropWhile (is_digit u) s) of None \<Rightarrow> None
      | Some r1 \<Rightarrow>
         (let mo = takeWhile (is_digit u) r1 in
          if length mo \<noteq> 1 \<and> length mo \<noteq> 2 then None else
          case expect_dash (dropWhile (is_digit u) r1) of None \<Rightarrow> None
          | Some r2 \<Rightarrow>
             (let y = takeWhile (is_digit u) r2 in
              if length y = 4 \<and> at_end (dropWhile (is_digit u) r2)
              then Some (da, mo, y) else None)))"

definition match_compact :: "runtime \<Rightarrow> pystr \<Rightarrow> bool" where
  \<comment> \<open>\<open>^(\d{2})(\d{2})(\d{4})$\<close>\<close>
  "match_compact u s =
     (8 \<le> length s \<and> list_all (is_digit u) (take 8 s) \<and> at_end (drop 8 s))"

definition format_ojdate :: "runtime \<Rightarrow> date_input \<Rightarrow> error + pystr" where
  "format_ojdate u date_input =
     (case date_input of
        DateValue d \<Rightarrow> Inr (ustr (strftime_dmY (pads_year u) d))
      | StrValue str \<Rightarrow>
          (let s = strip u str in
           case match_ymd u s of
             Some (y, mo, da) \<Rightarrow>
               Inr (ustr (zpad 2 (int_of_digits u da)) @ ustr (zpad 2 (int_of_digits u mo)) @ y)
           | None \<Rightarrow>
               (case match_dmy u s of
                  Some (da, mo, y) \<Rightarrow>
                    Inr (ustr (zpad 2 (int_of_digits u da)) @ ustr (zpad 2 (int_of_digits u mo)) @ y)
                | None \<Rightarrow> if match_compact u s then Inr s else Inl ValueError))
      | OtherValue \<Rightarrow> Inl ValueError)"

section \<open>The LLM analysis boundary (\<open>analyze_compliance\<close>)\<close>

datatype json = JNull | JBool bool | JInt int | JStr string | JArr "json list"
  | JObj "(string \<times> json) list"

text \<open>
  What \<open>json.loads\<close> does with a string: it returns the decoded value, raises
  \<open>JSONDecodeError\<close>, or raises something else (\<open>RecursionError\<close> on text nested too
  deeply, for one).
\<close>

datatype loads_outcome = Parsed json | JSONDecodeError | Raised error

text \<open>
  What the surroundings decide in one call: the outcome of \<open>_call_deepseek_api\<close> (an
  exception or the decoded response), \<open>json.loads\<close>, the clock, and the text
  \<open>str(e)\<close> of an exception.
\<close>

record llm_env =
  call_deepseek_api :: "error + json"
  json_loads :: "string \<Rightarrow> loads_outcome"
  llm_now :: datetime
  exc_text :: "error \<Rightarrow> string"

definition dict_get :: "json \<Rightarrow> string \<Rightarrow> json \<Rightarrow> error + json" where
  \<comment> \<open>\<open>x.get(key, default)\<close>: only a dict has the method\<close>
  "dict_get x k dflt =
     (case x of JObj kv \<Rightarrow> Inr (case map_of kv k of None \<Rightarrow> dflt | Some v \<Rightarrow> v)
      | _ \<Rightarrow> Inl AttributeError)"

definition index0 :: "json \<Rightarrow> error + json" where
  \<comment> \<open>\<open>x[0]\<close>\<close>
  "index0 x =
     (case x of
        JArr [] \<Rightarrow> Inl IndexError
      | JArr (v # _) \<Rightarrow> Inr v
      | JStr [] \<Rightarrow> Inl IndexError
      | JStr (c # _) \<Rightarrow> Inr (JStr [c])
      | JObj _ \<Rightarrow> Inl KeyError
      | _ \<Rightarrow> Inl TypeError)"

definition response_content :: "json \<Rightarrow> error + json" where
  \<comment> \<open>\<open>response.get('choices', [{}])[0].get('message', {}).get('content', '')\<close>\<close>
  "response_content response =
     (case dict_get response ''choices'' (JArr [JObj []]) of Inl x \<Rightarrow> Inl x
      | Inr choices \<Rightarrow>
         (case index0 choices of Inl x \<Rightarrow> Inl x
          | Inr choice \<Rightarrow>
             (case dict_get choice ''message'' (JObj []) of Inl x \<Rightarrow> Inl x
              | Inr message \<Rightarrow> dict_get message ''content'' (JStr ''''))))"

definition parse_fallback :: "string \<Rightarrow> json" where
  \<comment> \<open>the result built under \<open>except json.JSONDecodeError\<close>\<close>
  "parse_fallback content =
     JObj [(''regulatory_requirements'', JArr [JStr ''Error parsing AI response'']),
           (''compliance_gaps'', JArr [JStr ''Please try again'']),
           (''action_items'', JArr []),
           (''risks'', JArr [JStr ''Unable to complete analysis'']),
           (''overall_compliance_score'', JInt 0),
           (''raw_response'', JStr content)]"

definition loads_or_fallback :: "llm_env \<Rightarrow> json \<Rightarrow> error + json" where
  \<comment> \<open>the inner \<open>try\<close>, which catches \<open>JSONDecodeError\<close> alone; \<open>json.loads\<close> takes a
      string only\<close>
  "loads_or_fallback e content =
     (case content of
        JStr s \<Rightarrow>
          (case json_loads e s of
             Parsed v \<Rightarrow> Inr v
           | JSONDecodeError \<Rightarrow> Inr (parse_fallback s)
           | Raised x \<Rightarrow> Inl x)
      | _ \<Rightarrow> Inl TypeError)"

definition set_item :: "json \<Rightarrow> string \<Rightarrow> json \<Rightarrow> error + json" where
  \<comment> \<open>\<open>x[key] = value\<close> with a string key\<close>
  "set_item x k v = (case x of JObj kv \<Rightarrow> Inr (JObj (AList.update k v kv)) | _ \<Rightarrow> Inl TypeError)"

definition technical_error :: "llm_env \<Rightarrow> error \<Rightarrow> json" where
  \<comment> \<open>the result built under the outer \<open>except Exception\<close>\<close>
  "technical_error e x =
     JObj [(''error'', JStr (exc_text e x)),
           (''regulatory_requirements'', JArr []),
           (''compliance_gaps'', JArr []),
           (''action_items'', JArr []),
           (''risks'', JArr [JStr ''Unable to complete analysis due to technical error'']),
           (''overall_compliance_score'', JInt 0),
           (''analysis_date'', JStr (isoformat (llm_now e)))]"

definition analysis_body :: "llm_env \<Rightarrow> (string \<times> json) list \<Rightarrow> error + json" where
  \<comment> \<open>the statements inside the outer \<open>try\<close>\<close>
  "analysis_body e business_info =
     (case call_deepseek_api e of Inl x \<Rightarrow> Inl x
      | Inr response \<Rightarrow>
         (case response_content response of Inl x \<Rightarrow> Inl x
          | Inr content \<Rightarrow>
             (case loads_or_fallback e content of Inl x \<Rightarrow> Inl x
              | Inr analysis_result \<Rightarrow>
                 (case set_item analysis_result ''analysis_date'' (JStr (isoformat (llm_now e))) of
                    Inl x \<Rightarrow> Inl x
                  | Inr r1 \<Rightarrow> set_item r1 ''business_info'' (JObj business_info)))))"

definition analyze_compliance :: "llm_env \<Rightarrow> (string \<times> json) list \<Rightarrow> error + json" where
  \<comment> \<open>\<open>Inl\<close> would be an exception reaching the caller\<close>
  "analyze_compliance e business_info =
     (case analysis_body e business_info of
        Inl x \<Rightarrow> Inr (technical_error e x)
      | Inr analysis_result \<Rightarrow> Inr analysis_result)"

section \<open>Auxiliary notions and example inputs\<close>

definition stamped_from :: "update set \<Rightarrow> update \<Rightarrow> bool" where
  \<comment> \<open>a record of \<open>cand\<close> with its \<open>discovered_date\<close> set to some reading of the clock\<close>
  "stamped_from cand a = (\<exists>u t. u \<in> cand \<and> a = AList.update ''discovered_date'' (isoformat t) u)"

definition fresh_ext :: "update set \<Rightarrow> update list \<Rightarrow> update list \<Rightarrow> bool" where
  \<comment> \<open>\<open>new\<close> is \<open>old\<close> followed by stamped records with new, pairwise different titles\<close>
  "fresh_ext cand old new = (\<exists>added. new = old @ added \<and> distinct (map title_of added) \<and>
      title_of ` set added \<inter> title_of ` set old = {} \<and> list_all (stamped_from cand) added)"

definition with_key :: "string \<Rightarrow> updates_db \<Rightarrow> updates_db" where
  "with_key k db = (if k \<in> fst ` set db then db else AList.update k [] db)"

definition candidates :: "updates_db \<Rightarrow> string \<Rightarrow> update set" where
  \<comment> \<open>the incoming records of one source\<close>
  "candidates incoming s = {u. \<exists>us. (s, us) \<in> set incoming \<and> u \<in> set us}"

definition time0 :: datetime where
  "time0 = \<lparr>year = 2025, month = 9, day = 10, hour = 12, minute = 0, second = 0, microsecond = 0\<rparr>"

definition env0 :: env where
  "env0 = \<lparr>clock = (\<lambda>k. time0\<lparr>second := k\<rparr>), check_for_updates = None, updates_write = WriteOk,
            alerts_write = WriteOk, smtp_ok = (\<lambda>_. True), monitoring = None\<rparr>"

definition world0 :: world where
  "world0 = \<lparr>regulatory_updates_db = None, client_alerts_db = None, clients_db = None, ticks = 0,
          logs = [], outbox = []\<rparr>"

definition inc0 :: updates_db where
  "inc0 = [(''eur-lex'', [[(''title'', ''Reg A'')], [(''title'', ''Reg B'')],
                          [(''title'', ''Reg B''), (''content'', ''changed'')]])]"

definition ex0 :: updates_db where
  "ex0 = [(''eur-lex'', [[(''title'', ''Reg A''), (''discovered_date'', ''2025-09-01T08:00:00'')]])]"

definition merged0 :: updates_db where
  "merged0 = [(''eur-lex'',
      [[(''title'', ''Reg A''), (''discovered_date'', ''2025-09-01T08:00:00'')],
       [(''title'', ''Reg B''), (''discovered_date'', ''2025-09-10T12:00:00'')]])]"

definition lacks_discovered_date :: "update \<Rightarrow> bool" where
  \<comment> \<open>the key is missing or its value is the empty string\<close>
  "lacks_discovered_date u =
     (map_of u ''discovered_date'' = None \<or> map_of u ''discovered_date'' = Some '''')"

definition dated_only :: "updates_db \<Rightarrow> updates_db" where
  \<comment> \<open>the log without the records that lack a discovery time\<close>
  "dated_only updates = map (\<lambda>(rt, us). (rt, filter (\<lambda>u. \<not> lacks_discovered_date u) us)) updates"

definition undated0 :: update where
  "undated0 = [(''title'', ''Reg C''), (''date'', ''2025-09-10'')]"

fun fixed :: "nat \<Rightarrow> nat \<Rightarrow> string" where
  \<comment> \<open>the last \<open>w\<close> decimal digits of \<open>n\<close>\<close>
  "fixed 0 n = []"
| "fixed (Suc w) n = fixed w (n div 10) @ [digit_char n]"

definition ascii_digit :: "nat \<Rightarrow> bool" where
  "ascii_digit c = (48 \<le> c \<and> c \<le> 57)"

definition digit_values :: "runtime \<Rightarrow> bool" where
  \<comment> \<open>what makes the table one of decimal digits: their values are 0 to 9\<close>
  "digit_values u = (\<forall>c v. decimal u c = Some v \<longrightarrow> v \<le> 9)"

definition digit_string :: "runtime \<Rightarrow> pystr \<Rightarrow> bool" where
  "digit_string u s = list_all (is_digit u) s"

definition shape_ymd :: "runtime \<Rightarrow> pystr \<Rightarrow> pystr \<Rightarrow> pystr \<Rightarrow> pystr \<Rightarrow> bool" where
  "shape_ymd u s y mo da =
     (s = y @ ustr ''-'' @ mo @ ustr ''-'' @ da \<and> digit_string u y \<and> length y = 4 \<and>
      digit_string u mo \<and> (length mo = 1 \<or> length mo = 2) \<and>
      digit_string u da \<and> (length da = 1 \<or> length da = 2))"

definition shape_dmy :: "runtime \<Rightarrow> pystr \<Rightarrow> pystr \<Rightarrow> pystr \<Rightarrow> pystr \<Rightarrow> bool" where
  "shape_dmy u s da mo y =
     (s = da @ ustr ''-'' @ mo @ ustr ''-'' @ y \<and> digit_string u da \<and>
      (length da = 1 \<or> length da = 2) \<and>
      digit_string u mo \<and> (length mo = 1 \<or> length mo = 2) \<and>
      digit_string u y \<and> length y = 4)"

definition ddmmyyyy :: "runtime \<Rightarrow> pystr \<Rightarrow> pystr \<Rightarrow> pystr \<Rightarrow> pystr" where
  \<comment> \<open>day and month as two ASCII digits each, then the year as it was written\<close>
  "ddmmyyyy u da mo y =
     ustr (fixed 2 (int_of_digits u da)) @ ustr (fixed 2 (int_of_digits u mo)) @ y"

definition spec_fixed_width :: "pystr \<Rightarrow> bool" where
  \<comment> \<open>the spec's three formats, digits only and of fixed width\<close>
  "spec_fixed_width s =
     ((length s = 10 \<and> list_all ascii_digit (take 4 s) \<and> s ! 4 = 0x2D \<and>
         list_all ascii_digit (take 2 (drop 5 s)) \<and> s ! 7 = 0x2D \<and>
         list_all ascii_digit (drop 8 s)) \<or>
      (length s = 10 \<and> list_all ascii_digit (take 2 s) \<and> s ! 2 = 0x2D \<and>
         list_all ascii_digit (take 2 (drop 3 s)) \<and> s ! 5 = 0x2D \<and>
         list_all ascii_digit (drop 6 s)) \<or>
      (length s = 8 \<and> list_all ascii_digit s))"

definition unicode0 :: runtime where
  \<comment> \<open>a part of the Unicode tables (the Arabic-Indic digits; next line, no-break space,
      the general punctuation spaces, ideographic space) with a C library that does not
      pad the year\<close>
  "unicode0 =
     \<lparr>decimal = (\<lambda>c. if 0x660 \<le> c \<and> c \<le> 0x669 then Some (c - 0x660) else None),
      whitespace = (\<lambda>c. c \<in> set [0x85, 0xA0, 0x1680, 0x2028, 0x2029, 0x202F, 0x205F, 0x3000] \<or>
                         (0x2000 \<le> c \<and> c \<le> 0x200A)),
      pads_year = False\<rparr>"

definition arabic_ymd :: pystr where
  \<comment> \<open>2025-09-10 with the year in Arabic-Indic digits, after a no-break space\<close>
  "arabic_ymd = [0xA0, 0x662, 0x660, 0x662, 0x665] @ ustr ''-09-10''"

definition date_999 :: datetime where
  "date_999 = \<lparr>year = 999, month = 1, day = 2, hour = 0, minute = 0, second = 0, microsecond = 0\<rparr>"

definition deep0 :: string where
  "deep0 = replicate 1000 (CHR ''['')"

definition loads0 :: "string \<Rightarrow> loads_outcome" where
  \<comment> \<open>a parser that knows one document, rejects the others, and gives up on \<open>deep0\<close>\<close>
  "loads0 s = (if s = ''{}'' then Parsed (JObj []) else if s = deep0 then Raised RecursionError
               else JSONDecodeError)"

definition response0 :: json where
  "response0 = JObj [(''choices'', JArr [JObj [(''message'', JObj [(''content'', JStr ''not json'')])]])]"

definition llm_env0 :: llm_env where
  "llm_env0 = \<lparr>call_deepseek_api = Inr response0, json_loads = loads0, llm_now = time0,
               exc_text = (\<lambda>x. ''error'')\<rparr>"

definition fallback_result :: "llm_env \<Rightarrow> string \<Rightarrow> (string \<times> json) list \<Rightarrow> json" where
  \<comment> \<open>what the caller gets when the content \<open>s\<close> is not JSON\<close>
  "fallback_result e s business_info =
     JObj [(''regulatory_requirements'', JArr [JStr ''Error parsing AI response'']),
           (''compliance_gaps'', JArr [JStr ''Please try again'']),
           (''action_items'', JArr []),
           (''risks'', JArr [JStr ''Unable to complete analysis'']),
           (''overall_compliance_score'', JInt 0),
           (''raw_response'', JStr s),
           (''analysis_date'', JStr (isoformat (llm_now e))),
           (''business_info'', JObj business_info)]"

definition response_deep :: json where
  "response_deep = JObj [(''choices'', JArr [JObj [(''message'', JObj [(''content'', JStr deep0)])]])]"

definition llm_env_deep :: llm_env where
  "llm_env_deep = llm_env0\<lparr>call_deepseek_api := Inr response_deep\<rparr>"

definition existing_of :: "world \<Rightarrow> updates_db" where
  \<comment> \<open>\<open>existing_updates\<close> as loaded at the start of a cycle\<close>
  "existing_of w = (case regulatory_updates_db w of Some d \<Rightarrow> d | None \<Rightarrow> [])"

definition loaded :: "world \<Rightarrow> world" where
  \<comment> \<open>the world after the loading step of a cycle\<close>
  "loaded w =
     (case regulatory_updates_db w of
        Some d \<Rightarrow> logger_info ''Checking for regulatory updates...'' w
      | None \<Rightarrow> logger_error ''Error loading regulatory updates''
                  (logger_info ''Checking for regulatory updates...'' w))"

definition world1 :: world where
  "world1 = world0\<lparr>regulatory_updates_db := Some ex0, client_alerts_db := Some [], clients_db := Some []\<rparr>"

definition env_open_fails :: env where
  "env_open_fails = env0\<lparr>check_for_updates := Some inc0, updates_write := OpenFails\<rparr>"

definition env_write_ok :: env where
  "env_write_ok = env0\<lparr>check_for_updates := Some inc0\<rparr>"

definition world1_merged :: world where
  "world1_merged = world1\<lparr>ticks := 1, logs := [LogInfo ''Checking for regulatory updates...'',
                                         LogInfo ''New update found for eur-lex: Reg B'']\<rparr>"

definition alert_id_at :: "env \<Rightarrow> world \<Rightarrow> string" where
  \<comment> \<open>the id an evaluation started in \<open>w\<close> gives its alert: the second reading of the clock\<close>
  "alert_id_at e w = ''alert_'' @ strftime_alert (clock e (Suc (ticks w)))"

definition alert_event_at :: "env \<Rightarrow> world \<Rightarrow> nat \<Rightarrow> alert_event" where
  \<comment> \<open>the event such an evaluation records for a count of \<open>n\<close>\<close>
  "alert_event_at e w n =
     \<lparr>ev_id = alert_id_at e w, ev_date = isoformat (clock e (Suc (Suc (ticks w)))),
      update_count = n, updates_sent = True\<rparr>"

definition delivery_log :: "env \<Rightarrow> string \<times> string dict \<Rightarrow> log_entry" where
  \<comment> \<open>the log line of one recipient\<close>
  "delivery_log e client =
     (if smtp_ok e (fst client) then LogInfo (''Alert sent to '' @ get (snd client) ''email'' '''')
      else LogError (''Failed to send alert to '' @ get (snd client) ''email'' ''''))"

definition delivered :: "env \<Rightarrow> string \<Rightarrow> clients \<Rightarrow> (string \<times> string) list" where
  \<comment> \<open>the messages that reach their recipients\<close>
  "delivered e body cs =
     map (\<lambda>client. (get (snd client) ''email'' '''', body)) (filter (\<lambda>client. smtp_ok e (fst client)) cs)"

definition log8 :: updates_db where
  "log8 = [(''eur-lex'',
      [[(''title'', ''Reg A''), (''discovered_date'', ''2025-09-08T09:00:00'')],
       [(''title'', ''Reg B''), (''discovered_date'', ''2025-09-09T09:00:00'')],
       [(''title'', ''Reg C''), (''discovered_date'', ''2025-09-10T09:00:00'')]])]"

definition clients8 :: clients where
  "clients8 = [(''c1'', [(''email'', ''a@example.eu'')]), (''c2'', [(''email'', ''b@example.eu'')])]"

definition world8 :: world where
  "world8 = world0\<lparr>regulatory_updates_db := Some log8, client_alerts_db := Some [],
                     clients_db := Some clients8\<rparr>"

definition env8 :: env where
  "env8 = env0\<lparr>smtp_ok := (\<lambda>client_id. client_id \<noteq> ''c1'')\<rparr>"

definition threshold8 :: datetime where
  "threshold8 = time0\<lparr>day := 3\<rparr>"

definition env9 :: env where
  "env9 = env0\<lparr>clock := (\<lambda>k. time0\<lparr>microsecond := k + 1\<rparr>),
                monitoring := Some [(''alert_threshold'', 1)]\<rparr>"

definition log9 :: updates_db where
  "log9 = [(''eur-lex'', [[(''title'', ''Reg A''), (''discovered_date'', ''2025-09-08T09:00:00'')]])]"

definition world9 :: world where
  "world9 = world0\<lparr>regulatory_updates_db := Some log9, client_alerts_db := Some [],
                     clients_db := Some []\<rparr>"

definition old_event9 :: alert_event where
  "old_event9 = \<lparr>ev_id = ''alert_20250901_080000'', ev_date = ''2025-09-01T08:00:00.000001'',
                 update_count = 4, updates_sent = True\<rparr>"

definition same_second_event9 :: alert_event where
  "same_second_event9 = \<lparr>ev_id = ''alert_20250910_120000'', ev_date = ''2025-09-10T12:00:00.000001'',
                         update_count = 7, updates_sent = True\<rparr>"

definition world9c :: world where
  "world9c = world9\<lparr>client_alerts_db :=
      Some [(''alert_20250901_080000'', old_event9), (''alert_20250910_120000'', same_second_event9)]\<rparr>"

definition discovered :: "update \<Rightarrow> string" where
  \<comment> \<open>the sort key of \<open>recent_updates\<close> and the text the evaluator compares\<close>
  "discovered x = get x ''discovered_date'' ''''"







definition fraction :: "datetime \<Rightarrow> string" where
  \<comment> \<open>the end of \<open>isoformat\<close>\<close>
  "fraction d = (if microsecond d = 0 then [] else ''.'' @ fixed 6 (microsecond d))"

definition stamp :: "update \<Rightarrow> datetime \<Rightarrow> update" where
  \<comment> \<open>\<open>update['discovered_date'] = d.isoformat()\<close>, as the merge does with the clock\<close>
  "stamp u d = AList.update ''discovered_date'' (isoformat d) u"

definition stamped_log :: "(string \<times> (update \<times> datetime) list) list \<Rightarrow> updates_db" where
  \<comment> \<open>a log given by its records and the time each was discovered\<close>
  "stamped_log slog = map (\<lambda>(rt, uds). (rt, map (\<lambda>(u, d). stamp u d) uds)) slog"

definition threshold_line :: "log_entry \<Rightarrow> bool" where
  \<comment> \<open>the line logged on entering the branch that sends and records the alert\<close>
  "threshold_line l =
     (case l of
        LogInfo s \<Rightarrow> take (length ''Alert threshold reached: '') s = ''Alert threshold reached: ''
      | LogError s \<Rightarrow> False)"

definition alert_fired :: "env \<Rightarrow> world \<Rightarrow> bool" where
  \<comment> \<open>whether one evaluation from \<open>w\<close> took that branch\<close>
  "alert_fired e w =
     list_ex threshold_line (drop (length (logs w)) (logs (snd (check_and_send_alerts e w))))"

definition spec_window_count ::
  "nat \<Rightarrow> datetime \<Rightarrow> (string \<times> (update \<times> datetime) list) list \<Rightarrow> nat" where
  \<comment> \<open>the spec's count: the records discovered in \<open>[now - windowDays, now]\<close>\<close>
  "spec_window_count window_days now slog =
     (case minus_days now window_days of
        Inl x \<Rightarrow> 0
      | Inr lower \<Rightarrow>
          length (filter (\<lambda>(u, d). dt_le lower d \<and> dt_le d now) (concat (map snd slog))))"

definition slog4 :: "(string \<times> (update \<times> datetime) list) list" where
  \<comment> \<open>discovered one day, eight days and exactly seven days before \<open>time0\<close>\<close>
  "slog4 = [(''eur-lex'', [([(''title'', ''Reg A'')], time0\<lparr>day := 9\<rparr>),
                           ([(''title'', ''Reg B''), (''date'', ''2025-09-10'')], time0\<lparr>day := 2\<rparr>),
                           ([(''title'', ''Reg C'')], time0\<lparr>day := 3\<rparr>)])]"

definition world4 :: world where
  "world4 = world0\<lparr>regulatory_updates_db := Some (stamped_log slog4), client_alerts_db := Some [],
                     clients_db := Some []\<rparr>"

definition slog_future :: "(string \<times> (update \<times> datetime) list) list" where
  \<comment> \<open>discovered the day after \<open>time0\<close>\<close>
  "slog_future = [(''eur-lex'', [([(''title'', ''Reg F'')], time0\<lparr>day := 11\<rparr>)])]"

definition slog_two_days :: "(string \<times> (update \<times> datetime) list) list" where
  \<comment> \<open>discovered two days before \<open>time0\<close>\<close>
  "slog_two_days = [(''eur-lex'', [([(''title'', ''Reg G'')], time0\<lparr>day := 8\<rparr>)])]"


section \<open>Deduplication and merge: proofs\<close>

lemma is_new_iff: "is_new ex u \<longleftrightarrow> title_of u \<notin> title_of ` set ex"
  by (induction ex) auto

lemma title_of_stamp [simp]: "title_of (AList.update ''discovered_date'' v u) = title_of u"
  by (simp add: title_of_def update_conv')

lemma fresh_ext_refl: "fresh_ext cand l l"
  by (simp add: fresh_ext_def)

lemma stamped_from_mono: "stamped_from c a \<Longrightarrow> c \<subseteq> c' \<Longrightarrow> stamped_from c' a"
  unfolding stamped_from_def by blast

lemma fresh_ext_mono: "fresh_ext c a b \<Longrightarrow> c \<subseteq> c' \<Longrightarrow> fresh_ext c' a b"
proof -
  assume "fresh_ext c a b" and sub: "c \<subseteq> c'"
  then obtain x where x: "b = a @ x" "distinct (map title_of x)"
      "title_of ` set x \<inter> title_of ` set a = {}" "list_all (stamped_from c) x"
    unfolding fresh_ext_def by blast
  from x(4) sub have "list_all (stamped_from c') x"
    unfolding list_all_iff using stamped_from_mono by blast
  with x(1,2,3) show ?thesis unfolding fresh_ext_def by blast
qed

lemma fresh_ext_trans:
  assumes "fresh_ext c a b" and "fresh_ext c b d"
  shows "fresh_ext c a d"
proof -
  from assms obtain x y where x: "b = a @ x" "distinct (map title_of x)"
      "title_of ` set x \<inter> title_of ` set a = {}" "list_all (stamped_from c) x"
    and y: "d = b @ y" "distinct (map title_of y)"
      "title_of ` set y \<inter> title_of ` set b = {}" "list_all (stamped_from c) y"
    unfolding fresh_ext_def by blast
  have "d = a @ (x @ y)" using x(1) y(1) by simp
  moreover have "distinct (map title_of (x @ y))"
    using x(1,2) y(2,3) by (simp add: image_Un Int_Un_distrib Int_commute)
  moreover have "title_of ` set (x @ y) \<inter> title_of ` set a = {}"
    using x(1,3) y(3) by (simp add: image_Un Int_Un_distrib Int_Un_distrib2)
  moreover have "list_all (stamped_from c) (x @ y)" using x(4) y(4) by simp
  ultimately show ?thesis unfolding fresh_ext_def by blast
qed

lemma fresh_ext_snoc:
  "title_of u \<notin> title_of ` set l \<Longrightarrow> u \<in> cand \<Longrightarrow>
     fresh_ext cand l (l @ [AList.update ''discovered_date'' (isoformat t) u])"
  unfolding fresh_ext_def stamped_from_def by auto

lemma fresh_ext_titles_mono: "fresh_ext c a b \<Longrightarrow> title_of ` set a \<subseteq> title_of ` set b"
  by (auto simp: fresh_ext_def)

lemma fresh_ext_distinct:
  "fresh_ext c a b \<Longrightarrow> distinct (map title_of a) \<Longrightarrow> distinct (map title_of b)"
proof -
  assume "fresh_ext c a b" and d: "distinct (map title_of a)"
  then obtain x where x: "b = a @ x" "distinct (map title_of x)"
      "title_of ` set x \<inter> title_of ` set a = {}"
    unfolding fresh_ext_def by blast
  from x(3) have "title_of ` set a \<inter> title_of ` set x = {}" by (simp add: Int_commute)
  with d x(1,2) show ?thesis by simp
qed

lemma merge_updates_fresh:
  "merge_updates e rt us (ex, hn, w) = (l, h, w') \<Longrightarrow> fresh_ext (set us) ex l"
proof (induction us arbitrary: ex hn w)
  case Nil
  then show ?case by (simp add: fresh_ext_refl)
next
  case (Cons u us)
  show ?case
  proof (cases "is_new ex u")
    case True
    with Cons.prems have
      "merge_updates e rt us (ex @ [AList.update ''discovered_date'' (isoformat (clock e (ticks w))) u],
          True, logger_info (''New update found for '' @ rt @ '': '' @ py_str (title_of u))
                  (w\<lparr>ticks := Suc (ticks w)\<rparr>)) = (l, h, w')"
      by (simp add: Let_def datetime_now_def)
    from Cons.IH[OF this]
    have "fresh_ext (set (u # us))
            (ex @ [AList.update ''discovered_date'' (isoformat (clock e (ticks w))) u]) l"
      by (rule fresh_ext_mono) auto
    moreover have "fresh_ext (set (u # us)) ex
                     (ex @ [AList.update ''discovered_date'' (isoformat (clock e (ticks w))) u])"
      using True by (intro fresh_ext_snoc) (simp_all add: is_new_iff)
    ultimately show ?thesis by (rule fresh_ext_trans[rotated])
  next
    case False
    with Cons.prems have "merge_updates e rt us (ex, hn, w) = (l, h, w')" by simp
    from Cons.IH[OF this] show ?thesis by (rule fresh_ext_mono) auto
  qed
qed

lemma merge_updates_complete:
  "merge_updates e rt us (ex, hn, w) = (l, h, w') \<Longrightarrow>
     title_of ` set l = title_of ` set ex \<union> title_of ` set us"
proof (induction us arbitrary: ex hn w)
  case Nil
  then show ?case by simp
next
  case (Cons u us)
  show ?case
  proof (cases "is_new ex u")
    case True
    with Cons.prems obtain hn2 w2 v where
      "merge_updates e rt us (ex @ [AList.update ''discovered_date'' v u], hn2, w2) = (l, h, w')"
      by (auto simp: Let_def split: prod.splits)
    from Cons.IH[OF this] show ?thesis by auto
  next
    case False
    with Cons.prems have "merge_updates e rt us (ex, hn, w) = (l, h, w')" by simp
    from Cons.IH[OF this] False show ?thesis by (auto simp: is_new_iff)
  qed
qed

lemma merge_updates_noop:
  "\<forall>u\<in>set us. title_of u \<in> title_of ` set ex \<Longrightarrow> merge_updates e rt us (ex, hn, w) = (ex, hn, w)"
  by (induction us) (auto simp: is_new_iff)

lemma records_of_update:
  "records_of (AList.update k v db) s = (if s = k then v else records_of db s)"
  by (simp add: records_of_def update_conv')

lemma records_of_new_key:
  "k \<notin> fst ` set db \<Longrightarrow> records_of (AList.update k [] db) s = records_of db s"
proof -
  assume "k \<notin> fst ` set db"
  then have "map_of db k = None" by (simp add: map_of_eq_None_iff)
  then show ?thesis by (simp add: records_of_def update_conv')
qed

lemma map_of_records_of:
  "k \<in> fst ` set db \<Longrightarrow> map_of db k = Some (records_of db k)"
  by (cases "map_of db k") (auto simp: records_of_def map_of_eq_None_iff)

lemma records_of_with_key [simp]: "records_of (with_key k db) s = records_of db s"
  by (simp add: with_key_def records_of_new_key)

lemma keys_with_key [simp]: "fst ` set (with_key k db) = insert k (fst ` set db)"
  by (auto simp: with_key_def dom_update)

lemma merge_sources_step:
  assumes "merge_sources e ((rt, us) # rest) (ex, hn, w) = (m, h, w')"
  obtains l h1 w1 where
    "merge_updates e rt us (records_of ex rt, hn, w) = (l, h1, w1)"
    "merge_sources e rest (AList.update rt l (with_key rt ex), h1, w1) = (m, h, w')"
proof -
  obtain l h1 w1 where 1: "merge_updates e rt us (records_of ex rt, hn, w) = (l, h1, w1)"
    by (metis prod_cases3)
  have "records_of (with_key rt ex) rt = records_of ex rt" by simp
  with assms 1 have "merge_sources e rest (AList.update rt l (with_key rt ex), h1, w1) = (m, h, w')"
    by (simp add: with_key_def Let_def split: if_splits)
  with 1 show ?thesis by (rule that)
qed

lemma merge_sources_fresh:
  "merge_sources e inc (ex, hn, w) = (m, h, w') \<Longrightarrow>
     fresh_ext (candidates inc s) (records_of ex s) (records_of m s)"
proof (induction inc arbitrary: ex hn w)
  case Nil
  then show ?case by (simp add: fresh_ext_refl)
next
  case (Cons p rest)
  obtain rt us where p: "p = (rt, us)" by (cases p)
  from Cons.prems[unfolded p] obtain l h1 w1 where
    1: "merge_updates e rt us (records_of ex rt, hn, w) = (l, h1, w1)" and
    2: "merge_sources e rest (AList.update rt l (with_key rt ex), h1, w1) = (m, h, w')"
    by (rule merge_sources_step)
  have "fresh_ext (candidates (p # rest) s) (records_of ex s)
          (records_of (AList.update rt l (with_key rt ex)) s)"
  proof (cases "s = rt")
    case True
    have "set us \<subseteq> candidates (p # rest) s"
      using True by (auto simp: candidates_def p)
    with merge_updates_fresh[OF 1] show ?thesis
      using True by (simp add: records_of_update fresh_ext_mono)
  next
    case False
    then show ?thesis by (simp add: records_of_update fresh_ext_refl)
  qed
  moreover have "fresh_ext (candidates (p # rest) s)
      (records_of (AList.update rt l (with_key rt ex)) s) (records_of m s)"
    using Cons.IH[OF 2] by (rule fresh_ext_mono) (auto simp: candidates_def)
  ultimately show ?case by (rule fresh_ext_trans)
qed

lemma merge_sources_complete:
  "merge_sources e inc (ex, hn, w) = (m, h, w') \<Longrightarrow> (rt, us) \<in> set inc \<Longrightarrow>
     title_of ` set us \<subseteq> title_of ` set (records_of m rt)"
proof (induction inc arbitrary: ex hn w)
  case Nil
  then show ?case by simp
next
  case (Cons p rest)
  obtain rt0 us0 where p: "p = (rt0, us0)" by (cases p)
  from Cons.prems(1)[unfolded p] obtain l h1 w1 where
    1: "merge_updates e rt0 us0 (records_of ex rt0, hn, w) = (l, h1, w1)" and
    2: "merge_sources e rest (AList.update rt0 l (with_key rt0 ex), h1, w1) = (m, h, w')"
    by (rule merge_sources_step)
  show ?case
  proof (cases "(rt, us) \<in> set rest")
    case True
    with Cons.IH[OF 2] show ?thesis .
  next
    case False
    with Cons.prems(2) p have eq: "rt0 = rt" "us0 = us" by auto
    have "title_of ` set us \<subseteq> title_of ` set l"
      using merge_updates_complete[OF 1] eq by auto
    also have "l = records_of (AList.update rt0 l (with_key rt0 ex)) rt"
      using eq by (simp add: records_of_update)
    also have "title_of ` set \<dots> \<subseteq> title_of ` set (records_of m rt)"
      using merge_sources_fresh[OF 2] by (rule fresh_ext_titles_mono)
    finally show ?thesis .
  qed
qed

lemma merge_sources_keys:
  "merge_sources e inc (ex, hn, w) = (m, h, w') \<Longrightarrow> fst ` set ex \<union> fst ` set inc \<subseteq> fst ` set m"
proof (induction inc arbitrary: ex hn w)
  case Nil
  then show ?case by simp
next
  case (Cons p rest)
  obtain rt us where p: "p = (rt, us)" by (cases p)
  from Cons.prems[unfolded p] obtain l h1 w1 where
    2: "merge_sources e rest (AList.update rt l (with_key rt ex), h1, w1) = (m, h, w')"
    by (rule merge_sources_step)
  from Cons.IH[OF 2] show ?case by (auto simp: p dom_update)
qed

lemma merge_sources_noop:
  "\<forall>(rt, us)\<in>set inc. rt \<in> fst ` set ex \<and> title_of ` set us \<subseteq> title_of ` set (records_of ex rt)
     \<Longrightarrow> merge_sources e inc (ex, hn, w) = (ex, hn, w)"
proof (induction inc)
  case Nil
  then show ?case by simp
next
  case (Cons p rest)
  obtain rt us where p: "p = (rt, us)" by (cases p)
  from Cons.prems p have k: "rt \<in> fst ` set ex"
    and t: "\<forall>u\<in>set us. title_of u \<in> title_of ` set (records_of ex rt)" by auto
  have "merge_updates e rt us (records_of ex rt, hn, w) = (records_of ex rt, hn, w)"
    using t by (rule merge_updates_noop)
  moreover have "AList.update rt (records_of ex rt) ex = ex"
    using k by (intro update_triv map_of_records_of)
  ultimately have "merge_sources e (p # rest) (ex, hn, w) = merge_sources e rest (ex, hn, w)"
    using k by (simp add: p)
  with Cons show ?case by simp
qed

lemma merge_example:
  "merge_sources env0 inc0 (ex0, False, world0) =
     (merged0, True, world0\<lparr>ticks := 1, logs := [LogInfo ''New update found for eur-lex: Reg B'']\<rparr>)"
  by code_simp

text \<open>
  Claim C1. In a merge, the records of a source after the merge are its records before,
  in their order, followed by the appended ones; the appended records have pairwise
  different titles, none of which was present for that source before (the test sees the
  records appended earlier in the same call), and each is an incoming record of that
  source with its \<open>discovered_date\<close> set; every incoming title is present afterwards.
  Consequently a log with at most one record per source and title, as the empty log and
  every log made from it by merges is, stays one. Identity is equality of the titles
  alone: the content of a record plays no part.
\<close>

theorem merge_appends_only_new_titles:
  assumes "merge_sources e incoming (existing, hn, w) = (merged, h, w')"
  shows "(\<exists>added. records_of merged s = records_of existing s @ added \<and>
            distinct (map title_of added) \<and>
            (\<forall>a\<in>set added. title_of a \<notin> title_of ` set (records_of existing s) \<and>
               (\<exists>us u t. (s, us) \<in> set incoming \<and> u \<in> set us \<and>
                  a = AList.update ''discovered_date'' (isoformat t) u))) \<and>
         (\<forall>(rt, us)\<in>set incoming. \<forall>u\<in>set us.
            title_of u \<in> title_of ` set (records_of merged rt)) \<and>
         (distinct (map title_of (records_of existing s)) \<longrightarrow>
            distinct (map title_of (records_of merged s)))"
proof (intro conjI)
  note f = merge_sources_fresh[OF assms, of s]
  then obtain added where a: "records_of merged s = records_of existing s @ added"
    "distinct (map title_of added)"
    "title_of ` set added \<inter> title_of ` set (records_of existing s) = {}"
    "list_all (stamped_from (candidates incoming s)) added"
    unfolding fresh_ext_def by blast
  have "\<forall>a\<in>set added. title_of a \<notin> title_of ` set (records_of existing s) \<and>
               (\<exists>us u t. (s, us) \<in> set incoming \<and> u \<in> set us \<and>
                  a = AList.update ''discovered_date'' (isoformat t) u)"
  proof
    fix x assume x: "x \<in> set added"
    then have "title_of x \<in> title_of ` set added" by (rule imageI)
    with a(3) have "title_of x \<notin> title_of ` set (records_of existing s)" by blast
    moreover from a(4) x have "stamped_from (candidates incoming s) x"
      by (simp add: list_all_iff)
    then have "\<exists>us u t. (s, us) \<in> set incoming \<and> u \<in> set us \<and>
                  x = AList.update ''discovered_date'' (isoformat t) u"
      unfolding stamped_from_def candidates_def by blast
    ultimately show "title_of x \<notin> title_of ` set (records_of existing s) \<and>
               (\<exists>us u t. (s, us) \<in> set incoming \<and> u \<in> set us \<and>
                  x = AList.update ''discovered_date'' (isoformat t) u)" ..
  qed
  with a(1,2) show "\<exists>added. records_of merged s = records_of existing s @ added \<and>
            distinct (map title_of added) \<and>
            (\<forall>a\<in>set added. title_of a \<notin> title_of ` set (records_of existing s) \<and>
               (\<exists>us u t. (s, us) \<in> set incoming \<and> u \<in> set us \<and>
                  a = AList.update ''discovered_date'' (isoformat t) u))" by blast
  show "\<forall>(rt, us)\<in>set incoming. \<forall>u\<in>set us.
            title_of u \<in> title_of ` set (records_of merged rt)"
    using merge_sources_complete[OF assms] by blast
  show "distinct (map title_of (records_of existing s)) \<longrightarrow>
            distinct (map title_of (records_of merged s))"
    using fresh_ext_distinct[OF f] by blast
qed

theorem merge_appends_only_new_titles_witness:
  "distinct (map title_of (records_of ex0 ''eur-lex'')) \<and>
   distinct (map title_of (records_of merged0 ''eur-lex'')) \<and>
   map title_of (records_of merged0 ''eur-lex'') = [Some ''Reg A'', Some ''Reg B'']"
proof -
  have d: "distinct (map title_of (records_of ex0 ''eur-lex''))" by code_simp
  have t: "map title_of (records_of merged0 ''eur-lex'') = [Some ''Reg A'', Some ''Reg B'']"
    by code_simp
  from merge_appends_only_new_titles[OF merge_example, of "''eur-lex''"] d
  have "distinct (map title_of (records_of merged0 ''eur-lex''))" by blast
  with d t show ?thesis by simp
qed

text \<open>
  Claim C2. Merging a batch and then merging the same batch again changes nothing the
  second time: the log produced by the first merge is returned as it is, in the same
  order, and \<open>has_new_updates\<close> stays \<open>False\<close>, so no record is added on replay. This
  holds for every log, every batch and every clock.
\<close>

theorem merge_replay_adds_nothing:
  "merge_sources e2 incoming (fst (merge_sources e1 incoming (existing, hn, wa)), False, wb)
     = (fst (merge_sources e1 incoming (existing, hn, wa)), False, wb)"
proof -
  obtain m h w' where m: "merge_sources e1 incoming (existing, hn, wa) = (m, h, w')"
    by (metis prod_cases3)
  have "\<forall>(rt, us)\<in>set incoming. rt \<in> fst ` set m \<and> title_of ` set us \<subseteq> title_of ` set (records_of m rt)"
  proof (clarify, intro conjI)
    fix rt us assume in_inc: "(rt, us) \<in> set incoming"
    then have "rt \<in> fst ` set incoming" by (metis fst_conv imageI)
    with merge_sources_keys[OF m] show "rt \<in> fst ` set m" by blast
    from merge_sources_complete[OF m in_inc]
    show "title_of ` set us \<subseteq> title_of ` set (records_of m rt)" .
  qed
  then show ?thesis unfolding m fst_conv by (rule merge_sources_noop)
qed

theorem merge_replay_adds_nothing_witness:
  "merge_sources env0 inc0 (merged0, False, world0) = (merged0, False, world0)"
  using merge_replay_adds_nothing[of env0 inc0 env0 ex0 False world0 world0]
  by (simp add: merge_example)

section \<open>Decimal formatting: proofs\<close>

lemma length_fixed [simp]: "length (fixed w n) = w"
  by (induction w arbitrary: n) auto

lemma digit_char_0 [simp]: "digit_char 0 = CHR ''0''"
  by (simp add: digit_char_def)

lemma fixed_0: "fixed w 0 = replicate w (CHR ''0'')"
  by (induction w) (auto simp: replicate_append_same)

lemma length_digits_pos: "0 < length (digits n)"
  by (subst digits.simps) auto

lemma zpad_fixed: "0 < w \<Longrightarrow> n < 10 ^ w \<Longrightarrow> zpad w n = fixed w n"
proof (induction w arbitrary: n)
  case 0
  then show ?case by simp
next
  case (Suc w)
  show ?case
  proof (cases "n < 10")
    case True
    then have "digits n = [digit_char n]" by (subst digits.simps) simp
    moreover from True have "n div 10 = 0" by simp
    ultimately show ?thesis by (simp add: zpad_def fixed_0)
  next
    case False
    then have d: "digits n = digits (n div 10) @ [digit_char n]" by (subst digits.simps) simp
    from False Suc.prems have w: "0 < w" by (cases w) auto
    from Suc.prems have "n div 10 < 10 ^ w" by (simp add: less_mult_imp_div_less mult.commute)
    with w have ih: "zpad w (n div 10) = fixed w (n div 10)" by (rule Suc.IH)
    have "Suc w - length (digits n) = w - length (digits (n div 10))" by (simp add: d)
    then have "zpad (Suc w) n = zpad w (n div 10) @ [digit_char n]"
      by (simp add: zpad_def d)
    with ih show ?thesis by simp
  qed
qed

lemma digit_char_mono: "a < 10 \<Longrightarrow> b < 10 \<Longrightarrow> digit_char a < digit_char b \<longleftrightarrow> a < b"
proof -
  assume "a < 10" "b < 10"
  then have "a \<in> {0,1,2,3,4,5,6,7,8,9}" "b \<in> {0,1,2,3,4,5,6,7,8,9}" by auto
  then show ?thesis by (auto simp: digit_char_def less_char_def)
qed

lemma of_char_digit_char: "(of_char (digit_char n) :: nat) = 48 + n mod 10"
proof -
  define k where "k = n mod 10"
  have "k < 10" by (simp add: k_def)
  then have "k \<in> {0,1,2,3,4,5,6,7,8,9}" by auto
  then have "(of_char (''0123456789'' ! k) :: nat) = 48 + k" by auto
  then show ?thesis by (simp add: digit_char_def k_def)
qed

lemma digit_char_ascii: "ascii_digit (of_char (digit_char n))"
proof -
  have "n mod 10 \<le> 9" by arith
  then show ?thesis unfolding of_char_digit_char ascii_digit_def by simp
qed

lemma length_ustr [simp]: "length (ustr s) = length s"
  by (simp add: ustr_def)

lemma ustr_append [simp]: "ustr (a @ b) = ustr a @ ustr b"
  by (simp add: ustr_def)

lemma fixed_ascii: "list_all ascii_digit (ustr (fixed w n))"
  by (induction w arbitrary: n) (auto simp: ustr_def digit_char_ascii)

lemma length_digits_le: "0 < w \<Longrightarrow> n < 10 ^ w \<Longrightarrow> length (digits n) \<le> w"
proof -
  assume w: "0 < w" "n < 10 ^ w"
  then have "zpad w n = fixed w n" by (rule zpad_fixed)
  then have "length (zpad w n) = w" by simp
  then have "(w - length (digits n)) + length (digits n) = w" by (simp add: zpad_def)
  then show ?thesis by arith
qed

lemma length_digits_gt: "10 ^ k \<le> n \<Longrightarrow> k < length (digits n)"
proof (induction k arbitrary: n)
  case 0
  show ?case by (rule length_digits_pos)
next
  case (Suc k)
  have "(10::nat) \<le> 10 ^ Suc k" by simp
  with Suc.prems have n: "\<not> n < 10" by arith
  then have d: "digits n = digits (n div 10) @ [digit_char n]" by (subst digits.simps) simp
  from Suc.prems have "10 ^ k * 10 \<le> n" by (simp add: mult.commute)
  then have "10 ^ k \<le> n div 10" by (simp add: less_eq_div_iff_mult_less_eq)
  then have "k < length (digits (n div 10))" by (rule Suc.IH)
  then show ?case by (simp add: d)
qed

lemma digits_fixed: "0 < w \<Longrightarrow> 10 ^ (w - 1) \<le> n \<Longrightarrow> n < 10 ^ w \<Longrightarrow> digits n = fixed w n"
proof -
  assume w: "0 < w" and lo: "10 ^ (w - 1) \<le> n" and hi: "n < 10 ^ w"
  from w hi have z: "zpad w n = fixed w n" by (rule zpad_fixed)
  from lo have "w - 1 < length (digits n)" by (rule length_digits_gt)
  with w have "w - length (digits n) = 0" by arith
  with z show ?thesis by (simp add: zpad_def)
qed

section \<open>Counting recent records: proofs\<close>

lemma count_recent_in_eq:
  "count_recent_in us th c =
     c + length (filter (\<lambda>u. th \<le> get u ''discovered_date'' '''') us)"
  by (induction us arbitrary: c) auto

lemma count_recent_eq:
  "count_recent updates th c =
     c + length (filter (\<lambda>u. th \<le> get u ''discovered_date'' '''') (concat (map snd updates)))"
  by (induction updates arbitrary: c) (auto simp: count_recent_in_eq)

lemma isoformat_nonempty: "isoformat t \<noteq> []"
  by (simp add: isoformat_def)

lemma lacks_not_recent:
  "lacks_discovered_date u \<Longrightarrow> \<not> isoformat t \<le> get u ''discovered_date'' ''''"
  by (auto simp: lacks_discovered_date_def get_def isoformat_nonempty)

lemma filter_dated:
  "filter (\<lambda>u. \<not> lacks_discovered_date u \<and> isoformat t \<le> get u ''discovered_date'' '''') us
   = filter (\<lambda>u. isoformat t \<le> get u ''discovered_date'' '''') us"
  by (rule filter_cong) (auto dest: lacks_not_recent)

lemma concat_dated_only:
  "filter (\<lambda>u. isoformat t \<le> get u ''discovered_date'' '''') (concat (map snd (dated_only updates)))
   = filter (\<lambda>u. isoformat t \<le> get u ''discovered_date'' '''') (concat (map snd updates))"
  by (induction updates) (auto simp: dated_only_def filter_dated)

text \<open>
  Claim C10. The threshold date is the ISO text of a datetime, so it is not empty, and
  a record whose \<open>discovered_date\<close> is missing or empty compares below it. Such a record
  adds nothing to \<open>recent_update_count\<close>, wherever it stands in the log and whatever
  its other fields (its nominal \<open>date\<close> among them) hold: the count over the log is the
  count over the log without these records, and so is the comparison with the alert
  threshold.
\<close>

theorem undated_records_never_counted:
  "count_recent updates (isoformat t) 0 = count_recent (dated_only updates) (isoformat t) 0 \<and>
   (int (count_recent updates (isoformat t) 0) \<ge> alert_threshold e) =
     (int (count_recent (dated_only updates) (isoformat t) 0) \<ge> alert_threshold e) \<and>
   (lacks_discovered_date u \<longrightarrow>
      count_recent_in (before @ u # after) (isoformat t) c =
      count_recent_in (before @ after) (isoformat t) c)"
  by (simp add: count_recent_eq concat_dated_only count_recent_in_eq lacks_not_recent)

theorem undated_records_never_counted_witness:
  "lacks_discovered_date undated0 \<and>
   count_recent_in ([] @ undated0 # []) (isoformat time0) 0 = 0"
proof -
  have l: "lacks_discovered_date undated0" by (simp add: lacks_discovered_date_def undated0_def)
  from undated_records_never_counted[of "[]" time0 env0 undated0 "[]" "[]" 0] l
  show ?thesis by simp
qed

section \<open>The date normalizer: proofs\<close>


lemma is_digit_ascii: "c < 128 \<Longrightarrow> is_digit u c \<longleftrightarrow> ascii_digit c"
  by (simp add: is_digit_def digit_value_def ascii_digit_def)

lemma ascii_is_digit: "ascii_digit c \<Longrightarrow> is_digit u c"
  by (simp add: is_digit_def digit_value_def ascii_digit_def)

lemma not_digit_dash [simp]: "\<not> is_digit u 45"
  by (simp add: is_digit_def digit_value_def)

lemma not_digit_lf [simp]: "\<not> is_digit u 10"
  by (simp add: is_digit_def digit_value_def)

lemma is_space_lf [simp]: "is_space u 10"
  by (simp add: is_space_def)

lemma ustr_dash [simp]: "ustr ''-'' = [45]"
  by (simp add: ustr_def)

lemma expect_dash_Some: "expect_dash x = Some r \<longleftrightarrow> x = 45 # r"
  by (cases x) auto

lemma strip_last: "strip u str = [] \<or> \<not> is_space u (last (strip u str))"
proof -
  define z where "z = dropWhile (is_space u) (rev (dropWhile (is_space u) str))"
  have s: "strip u str = rev z" by (simp add: strip_def z_def)
  show ?thesis
  proof (cases "z = []")
    case True
    with s show ?thesis by simp
  next
    case False
    then have "\<not> is_space u (hd z)" unfolding z_def by (rule hd_dropWhile)
    moreover from False have "last (rev z) = hd z" by (simp add: last_rev)
    ultimately show ?thesis by (simp add: s)
  qed
qed

lemma strip_subset: "set (strip u str) \<subseteq> set str"
proof -
  have "set (strip u str) = set (dropWhile (is_space u) (rev (dropWhile (is_space u) str)))"
    by (simp add: strip_def)
  also have "\<dots> \<subseteq> set (rev (dropWhile (is_space u) str))" by (rule set_dropWhileD[THEN subsetI])
  also have "\<dots> \<subseteq> set str" using set_dropWhileD[of _ "is_space u" str] by auto
  finally show ?thesis .
qed

lemma strip_at_end: "strip u str = a @ r \<Longrightarrow> at_end r \<Longrightarrow> r = []"
proof (rule ccontr)
  assume s: "strip u str = a @ r" and e: "at_end r" and n: "r \<noteq> []"
  then have r: "r = [10]" by (simp add: at_end_def)
  with s have "last (strip u str) = 10" "strip u str \<noteq> []" by simp_all
  with strip_last[of u str] show False by simp
qed

lemma span_digits:
  "takeWhile (is_digit u) s = a \<and> dropWhile (is_digit u) s = 45 # r \<longleftrightarrow>
     s = a @ 45 # r \<and> digit_string u a"
proof
  assume h: "takeWhile (is_digit u) s = a \<and> dropWhile (is_digit u) s = 45 # r"
  have "s = takeWhile (is_digit u) s @ dropWhile (is_digit u) s" by simp
  with h have "s = a @ 45 # r" by simp
  moreover have "digit_string u a" using h
    by (auto simp: digit_string_def list_all_iff dest: set_takeWhileD)
  ultimately show "s = a @ 45 # r \<and> digit_string u a" ..
next
  assume "s = a @ 45 # r \<and> digit_string u a"
  then show "takeWhile (is_digit u) s = a \<and> dropWhile (is_digit u) s = 45 # r"
    by (simp add: digit_string_def list_all_iff takeWhile_append2 dropWhile_append2)
qed

lemma span_digits_rest:
  "takeWhile (is_digit u) s = a \<and> dropWhile (is_digit u) s = r \<Longrightarrow> s = a @ r \<and> digit_string u a"
proof -
  assume h: "takeWhile (is_digit u) s = a \<and> dropWhile (is_digit u) s = r"
  have "s = takeWhile (is_digit u) s @ dropWhile (is_digit u) s" by simp
  with h have "s = a @ r" by simp
  moreover have "digit_string u a" using h
    by (auto simp: digit_string_def list_all_iff dest: set_takeWhileD)
  ultimately show ?thesis ..
qed

lemma span_digits_all:
  "digit_string u a \<Longrightarrow> takeWhile (is_digit u) a = a \<and> dropWhile (is_digit u) a = []"
  by (simp add: digit_string_def list_all_iff)

lemma match_ymd_D:
  assumes "match_ymd u s = Some (y, mo, da)"
  shows "\<exists>r. s = y @ 45 # mo @ 45 # da @ r \<and> at_end r \<and> digit_string u y \<and> length y = 4 \<and>
     digit_string u mo \<and> (length mo = 1 \<or> length mo = 2) \<and>
     digit_string u da \<and> (length da = 1 \<or> length da = 2)"
proof -
  from assms obtain r1 r2 where
    1: "takeWhile (is_digit u) s = y \<and> dropWhile (is_digit u) s = 45 # r1" "length y = 4" and
    2: "takeWhile (is_digit u) r1 = mo \<and> dropWhile (is_digit u) r1 = 45 # r2"
       "length mo = 1 \<or> length mo = 2" and
    3: "takeWhile (is_digit u) r2 = da" "at_end (dropWhile (is_digit u) r2)"
       "length da = 1 \<or> length da = 2"
    unfolding match_ymd_def Let_def
    by (auto split: if_splits option.splits simp: expect_dash_Some)
  define r where "r = dropWhile (is_digit u) r2"
  from 3(1) r_def have "takeWhile (is_digit u) r2 = da \<and> dropWhile (is_digit u) r2 = r" by simp
  then have c: "r2 = da @ r \<and> digit_string u da" by (rule span_digits_rest)
  from 1(1) 2(1) have "s = y @ 45 # r1" "digit_string u y" "r1 = mo @ 45 # r2" "digit_string u mo"
    unfolding span_digits by simp_all
  with c 1(2) 2(2) 3(2,3) r_def show ?thesis by auto
qed

lemma match_ymd_I:
  assumes "s = y @ 45 # mo @ 45 # da" "digit_string u y" "length y = 4"
    "digit_string u mo" "length mo = 1 \<or> length mo = 2"
    "digit_string u da" "length da = 1 \<or> length da = 2"
  shows "match_ymd u s = Some (y, mo, da)"
proof -
  from assms have 1: "takeWhile (is_digit u) (y @ 45 # mo @ 45 # da) = y"
      "dropWhile (is_digit u) (y @ 45 # mo @ 45 # da) = 45 # (mo @ 45 # da)"
    using span_digits[of u "y @ 45 # mo @ 45 # da" y "mo @ 45 # da"] by simp_all
  from assms have 2: "takeWhile (is_digit u) (mo @ 45 # da) = mo"
      "dropWhile (is_digit u) (mo @ 45 # da) = 45 # da"
    using span_digits[of u "mo @ 45 # da" mo da] by simp_all
  from assms have 3: "takeWhile (is_digit u) da = da" "dropWhile (is_digit u) da = []"
    using span_digits_all[of u da] by simp_all
  show ?thesis
    using assms(3,5,7) by (auto simp: match_ymd_def Let_def assms(1) 1 2 3 at_end_def)
qed

lemma match_dmy_D:
  assumes "match_dmy u s = Some (da, mo, y)"
  shows "\<exists>r. s = da @ 45 # mo @ 45 # y @ r \<and> at_end r \<and> digit_string u da \<and>
     (length da = 1 \<or> length da = 2) \<and>
     digit_string u mo \<and> (length mo = 1 \<or> length mo = 2) \<and>
     digit_string u y \<and> length y = 4"
proof -
  from assms obtain r1 r2 where
    1: "takeWhile (is_digit u) s = da \<and> dropWhile (is_digit u) s = 45 # r1"
       "length da = 1 \<or> length da = 2" and
    2: "takeWhile (is_digit u) r1 = mo \<and> dropWhile (is_digit u) r1 = 45 # r2"
       "length mo = 1 \<or> length mo = 2" and
    3: "takeWhile (is_digit u) r2 = y" "at_end (dropWhile (is_digit u) r2)" "length y = 4"
    unfolding match_dmy_def Let_def
    by (auto split: if_splits option.splits simp: expect_dash_Some)
  define r where "r = dropWhile (is_digit u) r2"
  from 3(1) r_def have "takeWhile (is_digit u) r2 = y \<and> dropWhile (is_digit u) r2 = r" by simp
  then have c: "r2 = y @ r \<and> digit_string u y" by (rule span_digits_rest)
  from 1(1) 2(1) have "s = da @ 45 # r1" "digit_string u da" "r1 = mo @ 45 # r2" "digit_string u mo"
    unfolding span_digits by simp_all
  with c 1(2) 2(2) 3(2,3) r_def show ?thesis by auto
qed

lemma match_dmy_I:
  assumes "s = da @ 45 # mo @ 45 # y" "digit_string u da" "length da = 1 \<or> length da = 2"
    "digit_string u mo" "length mo = 1 \<or> length mo = 2"
    "digit_string u y" "length y = 4"
  shows "match_dmy u s = Some (da, mo, y)"
proof -
  from assms have 1: "takeWhile (is_digit u) (da @ 45 # mo @ 45 # y) = da"
      "dropWhile (is_digit u) (da @ 45 # mo @ 45 # y) = 45 # (mo @ 45 # y)"
    using span_digits[of u "da @ 45 # mo @ 45 # y" da "mo @ 45 # y"] by simp_all
  from assms have 2: "takeWhile (is_digit u) (mo @ 45 # y) = mo"
      "dropWhile (is_digit u) (mo @ 45 # y) = 45 # y"
    using span_digits[of u "mo @ 45 # y" mo y] by simp_all
  from assms have 3: "takeWhile (is_digit u) y = y" "dropWhile (is_digit u) y = []"
    using span_digits_all[of u y] by simp_all
  show ?thesis
    using assms(3,5,7) by (auto simp: match_dmy_def Let_def assms(1) 1 2 3 at_end_def)
qed

lemma match_ymd_shape: "match_ymd u (strip u str) = Some (y, mo, da) \<longleftrightarrow> shape_ymd u (strip u str) y mo da"
proof
  assume "match_ymd u (strip u str) = Some (y, mo, da)"
  from match_ymd_D[OF this] obtain r where
    r: "strip u str = y @ 45 # mo @ 45 # da @ r" "at_end r" and
    d: "digit_string u y" "length y = 4" "digit_string u mo" "length mo = 1 \<or> length mo = 2"
       "digit_string u da" "length da = 1 \<or> length da = 2" by blast
  from r(1) have "strip u str = (y @ 45 # mo @ 45 # da) @ r" by simp
  from strip_at_end[OF this r(2)] r(1) have "strip u str = y @ 45 # mo @ 45 # da" by simp
  with d show "shape_ymd u (strip u str) y mo da" by (simp add: shape_ymd_def)
next
  assume "shape_ymd u (strip u str) y mo da"
  then show "match_ymd u (strip u str) = Some (y, mo, da)"
    by (intro match_ymd_I) (simp_all add: shape_ymd_def)
qed

lemma match_dmy_shape: "match_dmy u (strip u str) = Some (da, mo, y) \<longleftrightarrow> shape_dmy u (strip u str) da mo y"
proof
  assume "match_dmy u (strip u str) = Some (da, mo, y)"
  from match_dmy_D[OF this] obtain r where
    r: "strip u str = da @ 45 # mo @ 45 # y @ r" "at_end r" and
    d: "digit_string u y" "length y = 4" "digit_string u mo" "length mo = 1 \<or> length mo = 2"
       "digit_string u da" "length da = 1 \<or> length da = 2" by blast
  from r(1) have "strip u str = (da @ 45 # mo @ 45 # y) @ r" by simp
  from strip_at_end[OF this r(2)] r(1) have "strip u str = da @ 45 # mo @ 45 # y" by simp
  with d show "shape_dmy u (strip u str) da mo y" by (simp add: shape_dmy_def)
next
  assume "shape_dmy u (strip u str) da mo y"
  then show "match_dmy u (strip u str) = Some (da, mo, y)"
    by (intro match_dmy_I) (simp_all add: shape_dmy_def)
qed

lemma match_ymd_None_dmy:
  "match_dmy u s = Some p \<Longrightarrow> match_ymd u s = None"
proof (rule ccontr)
  assume d: "match_dmy u s = Some p" and "match_ymd u s \<noteq> None"
  then obtain q where "match_ymd u s = Some q" by auto
  then have a: "length (takeWhile (is_digit u) s) = 4"
    unfolding match_ymd_def Let_def by (auto split: if_splits)
  from d have "length (takeWhile (is_digit u) s) = 1 \<or> length (takeWhile (is_digit u) s) = 2"
    unfolding match_dmy_def Let_def by (auto split: if_splits)
  with a show False by simp
qed

lemma match_compact_strip:
  "match_compact u (strip u str) \<longleftrightarrow> length (strip u str) = 8 \<and> digit_string u (strip u str)"
proof
  assume m: "match_compact u (strip u str)"
  have "strip u str = take 8 (strip u str) @ drop 8 (strip u str)" by simp
  moreover from m have "at_end (drop 8 (strip u str))" by (simp add: match_compact_def)
  ultimately have "drop 8 (strip u str) = []" by (rule strip_at_end)
  with m show "length (strip u str) = 8 \<and> digit_string u (strip u str)"
    by (simp add: match_compact_def digit_string_def)
next
  assume "length (strip u str) = 8 \<and> digit_string u (strip u str)"
  then show "match_compact u (strip u str)"
    by (simp add: match_compact_def digit_string_def at_end_def)
qed

lemma compact_no_match:
  assumes "length s = 8" "digit_string u s"
  shows "match_ymd u s = None" "match_dmy u s = None"
proof -
  from assms have a: "\<forall>x\<in>set s. is_digit u x"
    by (simp_all add: digit_string_def list_all_iff)
  then have tw: "takeWhile (is_digit u) s = s" by (simp add: takeWhile_eq_all_conv)
  have l: "length (takeWhile (is_digit u) s) = 8" unfolding tw by (rule assms(1))
  show "match_ymd u s = None" unfolding match_ymd_def Let_def l by simp
  show "match_dmy u s = None" unfolding match_dmy_def Let_def l by simp
qed

lemma digit_value_small: "digit_values u \<Longrightarrow> digit_value u c = Some v \<Longrightarrow> v \<le> 9"
  by (auto simp: digit_values_def digit_value_def split: if_splits)

lemma int_of_digits_small:
  assumes "digit_values u" "length s = 1 \<or> length s = 2"
  shows "int_of_digits u s < 100"
proof -
  have v: "(case digit_value u c of None \<Rightarrow> 0 | Some v \<Rightarrow> v) \<le> 9" for c
    using digit_value_small[OF assms(1), of c] by (cases "digit_value u c") simp_all
  from assms(2) consider a where "s = [a]" | a b where "s = [a, b]"
    by (cases s; cases "tl s") (auto simp: length_Suc_conv)
  then show ?thesis
  proof cases
    case 1
    with v[of a] show ?thesis by (simp add: int_of_digits_def)
  next
    case 2
    with v[of a] v[of b] show ?thesis by (simp add: int_of_digits_def)
  qed
qed

lemma zpad2_fixed:
  "digit_values u \<Longrightarrow> length s = 1 \<or> length s = 2 \<Longrightarrow>
     zpad 2 (int_of_digits u s) = fixed 2 (int_of_digits u s)"
  by (rule zpad_fixed) (simp_all add: int_of_digits_small)

lemma format_ojdate_cases:
  "format_ojdate u (StrValue str) =
     (case match_ymd u (strip u str) of
        Some (y, mo, da) \<Rightarrow>
          Inr (ustr (zpad 2 (int_of_digits u da)) @ ustr (zpad 2 (int_of_digits u mo)) @ y)
      | None \<Rightarrow>
          (case match_dmy u (strip u str) of
             Some (da, mo, y) \<Rightarrow>
               Inr (ustr (zpad 2 (int_of_digits u da)) @ ustr (zpad 2 (int_of_digits u mo)) @ y)
           | None \<Rightarrow> if match_compact u (strip u str) then Inr (strip u str) else Inl ValueError))"
  by (simp add: format_ojdate_def Let_def split: option.splits)

lemma format_ojdate_ymd:
  assumes "digit_values u" "shape_ymd u (strip u str) y mo da"
  shows "format_ojdate u (StrValue str) = Inr (ddmmyyyy u da mo y)"
proof -
  from assms(2) have m: "match_ymd u (strip u str) = Some (y, mo, da)" by (simp add: match_ymd_shape)
  from assms(2) have l: "length da = 1 \<or> length da = 2" "length mo = 1 \<or> length mo = 2"
    by (simp_all add: shape_ymd_def)
  show ?thesis
    by (simp add: format_ojdate_cases m ddmmyyyy_def zpad2_fixed[OF assms(1) l(1)]
        zpad2_fixed[OF assms(1) l(2)])
qed

lemma format_ojdate_dmy:
  assumes "digit_values u" "shape_dmy u (strip u str) da mo y"
  shows "format_ojdate u (StrValue str) = Inr (ddmmyyyy u da mo y)"
proof -
  from assms(2) have m: "match_dmy u (strip u str) = Some (da, mo, y)" by (simp add: match_dmy_shape)
  from assms(2) have l: "length da = 1 \<or> length da = 2" "length mo = 1 \<or> length mo = 2"
    by (simp_all add: shape_dmy_def)
  show ?thesis
    by (simp add: format_ojdate_cases m match_ymd_None_dmy[OF m] ddmmyyyy_def
        zpad2_fixed[OF assms(1) l(1)] zpad2_fixed[OF assms(1) l(2)])
qed

lemma format_ojdate_compact:
  assumes "length (strip u str) = 8" "digit_string u (strip u str)"
  shows "format_ojdate u (StrValue str) = Inr (strip u str)"
  using assms compact_no_match[OF assms]
  by (simp add: format_ojdate_cases match_compact_strip)

lemma format_ojdate_iff:
  assumes "digit_values u"
  shows "format_ojdate u (StrValue str) = Inr r \<longleftrightarrow>
     (\<exists>y mo da. shape_ymd u (strip u str) y mo da \<and> r = ddmmyyyy u da mo y) \<or>
     (\<exists>da mo y. shape_dmy u (strip u str) da mo y \<and> r = ddmmyyyy u da mo y) \<or>
     (length (strip u str) = 8 \<and> digit_string u (strip u str) \<and> r = strip u str)"
  (is "?L \<longleftrightarrow> ?A \<or> ?B \<or> ?C")
proof
  assume L: ?L
  show "?A \<or> ?B \<or> ?C"
  proof (cases "match_ymd u (strip u str)")
    case (Some p)
    obtain y mo da where p: "p = (y, mo, da)" by (cases p)
    from Some p have s: "shape_ymd u (strip u str) y mo da" by (simp add: match_ymd_shape)
    from format_ojdate_ymd[OF assms s] L have "r = ddmmyyyy u da mo y" by simp
    with s show ?thesis by blast
  next
    case None
    show ?thesis
    proof (cases "match_dmy u (strip u str)")
      case (Some p)
      obtain da mo y where p: "p = (da, mo, y)" by (cases p)
      from Some p have s: "shape_dmy u (strip u str) da mo y" by (simp add: match_dmy_shape)
      from format_ojdate_dmy[OF assms s] L have "r = ddmmyyyy u da mo y" by simp
      with s show ?thesis by blast
    next
      case N2: None
      with None L have ?C
        by (auto simp: format_ojdate_cases match_compact_strip split: if_splits)
      then show ?thesis by blast
    qed
  qed
next
  assume "?A \<or> ?B \<or> ?C"
  then consider (a) ?A | (b) ?B | (c) ?C by blast
  then show ?L
  proof cases
    case a
    then show ?thesis using format_ojdate_ymd[OF assms] by blast
  next
    case b
    then show ?thesis using format_ojdate_dmy[OF assms] by blast
  next
    case c
    then show ?thesis using format_ojdate_compact by simp
  qed
qed

lemma ddmmyyyy_shape:
  assumes "digit_string u y" "length y = 4"
  shows "length (ddmmyyyy u da mo y) = 8 \<and> digit_string u (ddmmyyyy u da mo y) \<and>
         list_all ascii_digit (take 4 (ddmmyyyy u da mo y)) \<and> drop 4 (ddmmyyyy u da mo y) = y"
proof -
  have a: "list_all ascii_digit (ustr (fixed 2 n))" for n by (rule fixed_ascii)
  then have d: "list_all (is_digit u) (ustr (fixed 2 n))" for n
    using ascii_is_digit[of _ u] by (auto simp: list_all_iff)
  from assms a d show ?thesis by (simp add: ddmmyyyy_def digit_string_def)
qed

lemma format_ojdate_result:
  assumes "digit_values u" "format_ojdate u (StrValue str) = Inr r"
  shows "length r = 8 \<and> digit_string u r \<and> (list_all (\<lambda>c. c < 128) str \<longrightarrow> list_all ascii_digit r)"
proof -
  have asc: "list_all ascii_digit t"
    if "digit_string u t" "set t \<subseteq> set (strip u str)" "list_all (\<lambda>c. c < 128) str" for t
  proof -
    from that(2) strip_subset[of u str] have "set t \<subseteq> set str" by blast
    with that(3) have "\<forall>c\<in>set t. c < 128" by (auto simp: list_all_iff)
    with that(1) show ?thesis by (auto simp: digit_string_def list_all_iff is_digit_ascii)
  qed
  from assms consider y mo da where "shape_ymd u (strip u str) y mo da" "r = ddmmyyyy u da mo y"
    | da mo y where "shape_dmy u (strip u str) da mo y" "r = ddmmyyyy u da mo y"
    | "length (strip u str) = 8" "digit_string u (strip u str)" "r = strip u str"
    unfolding format_ojdate_iff[OF assms(1)] by blast
  then show ?thesis
  proof cases
    case 1
    then have y: "digit_string u y" "length y = 4" "set y \<subseteq> set (strip u str)"
      by (auto simp: shape_ymd_def)
    note s = ddmmyyyy_shape[OF y(1,2), of da mo]
    have "list_all ascii_digit r" if "list_all (\<lambda>c. c < 128) str"
    proof -
      from asc[OF y(1) y(3) that] s have "list_all ascii_digit (take 4 r @ drop 4 r)"
        unfolding 1(2) by simp
      then show ?thesis by simp
    qed
    with s 1(2) show ?thesis by simp
  next
    case 2
    then have y: "digit_string u y" "length y = 4" "set y \<subseteq> set (strip u str)"
      by (auto simp: shape_dmy_def)
    note s = ddmmyyyy_shape[OF y(1,2), of da mo]
    have "list_all ascii_digit r" if "list_all (\<lambda>c. c < 128) str"
    proof -
      from asc[OF y(1) y(3) that] s have "list_all ascii_digit (take 4 r @ drop 4 r)"
        unfolding 2(2) by simp
      then show ?thesis by simp
    qed
    with s 2(2) show ?thesis by simp
  next
    case 3
    with asc[of "strip u str"] show ?thesis by simp
  qed
qed

lemma days_in_month_31: "days_in_month y m \<le> 31"
  by (simp add: days_in_month_def)

lemma strftime_dmY_fixed:
  assumes "valid_datetime d" "pad \<or> 1000 \<le> year d"
  shows "strftime_dmY pad d = fixed 2 (day d) @ fixed 2 (month d) @ fixed 4 (year d)"
proof -
  from assms(1) days_in_month_31[of "year d" "month d"]
  have b: "day d < 10 ^ 2" "month d < 10 ^ 2" "year d < 10 ^ 4"
    by (simp_all add: valid_datetime_def)
  have 1: "zpad 2 (day d) = fixed 2 (day d)" using b(1) by (intro zpad_fixed) simp_all
  have 2: "zpad 2 (month d) = fixed 2 (month d)" using b(2) by (intro zpad_fixed) simp_all
  have 3: "zpad 4 (year d) = fixed 4 (year d)" using b(3) by (intro zpad_fixed) simp_all
  have 4: "digits (year d) = fixed 4 (year d)" if "1000 \<le> year d"
    using that b(3) by (intro digits_fixed) simp_all
  from assms(2) show ?thesis unfolding strftime_dmY_def 1 2 using 3 4 by auto
qed

lemma strftime_dmY_short:
  assumes "valid_datetime d" "year d < 1000"
  shows "length (strftime_dmY False d) < 8"
proof -
  from assms(1) days_in_month_31[of "year d" "month d"]
  have b: "day d < 10 ^ 2" "month d < 10 ^ 2" by (simp_all add: valid_datetime_def)
  have 1: "zpad 2 (day d) = fixed 2 (day d)" using b(1) by (intro zpad_fixed) simp_all
  have 2: "zpad 2 (month d) = fixed 2 (month d)" using b(2) by (intro zpad_fixed) simp_all
  have "length (digits (year d)) \<le> 3" using assms(2) by (intro length_digits_le) simp_all
  then show ?thesis unfolding strftime_dmY_def 1 2 by simp
qed

lemma strip_ascii_text:
  "s \<noteq> [] \<Longrightarrow> \<not> is_space u (hd s) \<Longrightarrow> \<not> is_space u (last s) \<Longrightarrow> strip u s = s"
proof -
  assume a: "s \<noteq> []" "\<not> is_space u (hd s)" "\<not> is_space u (last s)"
  then have 1: "dropWhile (is_space u) s = s" by (cases s) simp_all
  from a have "rev s \<noteq> []" "\<not> is_space u (hd (rev s))" by (simp_all add: hd_rev)
  then have 2: "dropWhile (is_space u) (rev s) = rev s" by (cases "rev s") simp_all
  show ?thesis by (simp add: strip_def 1 2)
qed

lemma example_ymd: "format_ojdate u (StrValue (ustr ''2025-09-10'')) = Inr (ustr ''10092025'')"
proof -
  have s: "strip u (ustr ''2025-09-10'') = ustr ''2025-09-10''"
    by (rule strip_ascii_text) (simp_all add: ustr_def is_space_def)
  have m: "match_ymd u (ustr ''2025-09-10'') = Some (ustr ''2025'', ustr ''09'', ustr ''10'')"
    by (rule match_ymd_I) (simp_all add: ustr_def digit_string_def is_digit_def digit_value_def)
  have i: "int_of_digits u (ustr ''10'') = 10" "int_of_digits u (ustr ''09'') = 9"
    by (simp_all add: int_of_digits_def ustr_def digit_value_def)
  have z: "zpad 2 10 = ''10''" "zpad 2 9 = ''09''" by code_simp+
  show ?thesis by (simp add: format_ojdate_cases s m i z) (simp add: ustr_def)
qed

lemma example_dmy: "format_ojdate u (StrValue (ustr ''10-09-2025'')) = Inr (ustr ''10092025'')"
proof -
  have s: "strip u (ustr ''10-09-2025'') = ustr ''10-09-2025''"
    by (rule strip_ascii_text) (simp_all add: ustr_def is_space_def)
  have m: "match_dmy u (ustr ''10-09-2025'') = Some (ustr ''10'', ustr ''09'', ustr ''2025'')"
    by (rule match_dmy_I) (simp_all add: ustr_def digit_string_def is_digit_def digit_value_def)
  have i: "int_of_digits u (ustr ''10'') = 10" "int_of_digits u (ustr ''09'') = 9"
    by (simp_all add: int_of_digits_def ustr_def digit_value_def)
  have z: "zpad 2 10 = ''10''" "zpad 2 9 = ''09''" by code_simp+
  show ?thesis by (simp add: format_ojdate_cases s m match_ymd_None_dmy[OF m] i z) (simp add: ustr_def)
qed

lemma example_compact: "format_ojdate u (StrValue (ustr ''10092025'')) = Inr (ustr ''10092025'')"
proof -
  have s: "strip u (ustr ''10092025'') = ustr ''10092025''"
    by (rule strip_ascii_text) (simp_all add: ustr_def is_space_def)
  have "format_ojdate u (StrValue (ustr ''10092025'')) = Inr (strip u (ustr ''10092025''))"
    by (rule format_ojdate_compact)
      (simp_all add: s, simp add: ustr_def digit_string_def is_digit_def digit_value_def)
  then show ?thesis by (simp add: s)
qed

lemma example_slashes: "format_ojdate u (StrValue (ustr ''2025/09/10'')) = Inl ValueError"
proof -
  have s: "strip u (ustr ''2025/09/10'') = ustr ''2025/09/10''"
    by (rule strip_ascii_text) (simp_all add: ustr_def is_space_def)
  have d: "is_digit u 50" "is_digit u 48" "is_digit u 53" "\<not> is_digit u 47"
    by (simp_all add: is_digit_def digit_value_def)
  have 1: "match_ymd u (ustr ''2025/09/10'') = None"
    by (simp add: match_ymd_def ustr_def d Let_def)
  have 2: "match_dmy u (ustr ''2025/09/10'') = None"
    by (simp add: match_dmy_def ustr_def d Let_def)
  have 3: "\<not> match_compact u (ustr ''2025/09/10'')"
    by (simp add: match_compact_def ustr_def d)
  show ?thesis by (simp add: format_ojdate_cases s 1 2 3)
qed

text \<open>
  Claim C5, as the code has it. Digits are the decimal digits of Unicode and white space
  is Unicode white space, read from any table whose digits have the values 0 to 9. A
  string is accepted exactly when, with the white space around it removed, it is four
  digits, a dash, one or two digits, a dash, one or two digits (year first), or one or
  two digits, a dash, one or two digits, a dash, four digits (day first), or eight
  digits. The result is then eight digits: the values of day and month as two ASCII
  digits each, followed by the four digits of the year as they were written; for eight
  digits it is the stripped string itself. When the string is ASCII the result is eight
  ASCII digits. Every other string, and every value that is neither a string nor a date,
  raises \<open>ValueError\<close> and nothing else. A date object always gives a result: for a
  valid date it is day, month and year as eight ASCII digits when the year has four
  digits or the C library pads the year, and fewer than eight characters otherwise. The
  three spellings of 10 September 2025 give \<open>10092025\<close>, and the one with slashes fails.
\<close>

theorem format_ojdate_accepts:
  assumes "digit_values u"
  shows
  "(format_ojdate u (StrValue str) = Inr r \<longleftrightarrow>
     (\<exists>y mo da. shape_ymd u (strip u str) y mo da \<and> r = ddmmyyyy u da mo y) \<or>
     (\<exists>da mo y. shape_dmy u (strip u str) da mo y \<and> r = ddmmyyyy u da mo y) \<or>
     (length (strip u str) = 8 \<and> digit_string u (strip u str) \<and> r = strip u str)) \<and>
   (format_ojdate u (StrValue str) = Inr r \<longrightarrow>
      length r = 8 \<and> digit_string u r \<and>
      (list_all (\<lambda>c. c < 128) str \<longrightarrow> list_all ascii_digit r)) \<and>
   (format_ojdate u (StrValue str) = Inl x \<longrightarrow> x = ValueError) \<and>
   format_ojdate u OtherValue = Inl ValueError \<and>
   (\<exists>t. format_ojdate u (DateValue d) = Inr t) \<and>
   (valid_datetime d \<and> (pads_year u \<or> 1000 \<le> year d) \<longrightarrow>
      format_ojdate u (DateValue d) =
        Inr (ustr (fixed 2 (day d) @ fixed 2 (month d) @ fixed 4 (year d))) \<and>
      length (ustr (fixed 2 (day d) @ fixed 2 (month d) @ fixed 4 (year d))) = 8 \<and>
      list_all ascii_digit (ustr (fixed 2 (day d) @ fixed 2 (month d) @ fixed 4 (year d)))) \<and>
   (valid_datetime d \<and> \<not> pads_year u \<and> year d < 1000 \<longrightarrow>
      (\<exists>t. format_ojdate u (DateValue d) = Inr t \<and> length t < 8)) \<and>
   format_ojdate u (StrValue (ustr ''2025-09-10'')) = Inr (ustr ''10092025'') \<and>
   format_ojdate u (StrValue (ustr ''10-09-2025'')) = Inr (ustr ''10092025'') \<and>
   format_ojdate u (StrValue (ustr ''10092025'')) = Inr (ustr ''10092025'') \<and>
   format_ojdate u (StrValue (ustr ''2025/09/10'')) = Inl ValueError"
proof (intro conjI)
  show "format_ojdate u (StrValue str) = Inr r \<longleftrightarrow>
     (\<exists>y mo da. shape_ymd u (strip u str) y mo da \<and> r = ddmmyyyy u da mo y) \<or>
     (\<exists>da mo y. shape_dmy u (strip u str) da mo y \<and> r = ddmmyyyy u da mo y) \<or>
     (length (strip u str) = 8 \<and> digit_string u (strip u str) \<and> r = strip u str)"
    using assms by (rule format_ojdate_iff)
  show "format_ojdate u (StrValue str) = Inr r \<longrightarrow>
      length r = 8 \<and> digit_string u r \<and>
      (list_all (\<lambda>c. c < 128) str \<longrightarrow> list_all ascii_digit r)"
    using format_ojdate_result[OF assms] by blast
  show "format_ojdate u (StrValue str) = Inl x \<longrightarrow> x = ValueError"
    by (auto simp: format_ojdate_cases split: option.splits if_splits)
  show "format_ojdate u OtherValue = Inl ValueError" by (simp add: format_ojdate_def)
  show "\<exists>t. format_ojdate u (DateValue d) = Inr t" by (simp add: format_ojdate_def)
  show "valid_datetime d \<and> (pads_year u \<or> 1000 \<le> year d) \<longrightarrow>
      format_ojdate u (DateValue d) =
        Inr (ustr (fixed 2 (day d) @ fixed 2 (month d) @ fixed 4 (year d))) \<and>
      length (ustr (fixed 2 (day d) @ fixed 2 (month d) @ fixed 4 (year d))) = 8 \<and>
      list_all ascii_digit (ustr (fixed 2 (day d) @ fixed 2 (month d) @ fixed 4 (year d)))"
  proof (intro impI conjI)
    assume "valid_datetime d \<and> (pads_year u \<or> 1000 \<le> year d)"
    then have "strftime_dmY (pads_year u) d = fixed 2 (day d) @ fixed 2 (month d) @ fixed 4 (year d)"
      by (intro strftime_dmY_fixed) simp_all
    then show "format_ojdate u (DateValue d) =
        Inr (ustr (fixed 2 (day d) @ fixed 2 (month d) @ fixed 4 (year d)))"
      by (simp add: format_ojdate_def)
  next
    show "length (ustr (fixed 2 (day d) @ fixed 2 (month d) @ fixed 4 (year d))) = 8"
      unfolding length_ustr length_append length_fixed by simp
  next
    show "list_all ascii_digit (ustr (fixed 2 (day d) @ fixed 2 (month d) @ fixed 4 (year d)))"
      unfolding ustr_append list_all_append by (intro conjI fixed_ascii)
  qed
  show "valid_datetime d \<and> \<not> pads_year u \<and> year d < 1000 \<longrightarrow>
      (\<exists>t. format_ojdate u (DateValue d) = Inr t \<and> length t < 8)"
  proof
    assume a: "valid_datetime d \<and> \<not> pads_year u \<and> year d < 1000"
    then have "length (strftime_dmY False d) < 8" by (intro strftime_dmY_short) simp_all
    with a show "\<exists>t. format_ojdate u (DateValue d) = Inr t \<and> length t < 8"
      by (simp add: format_ojdate_def)
  qed
  show "format_ojdate u (StrValue (ustr ''2025-09-10'')) = Inr (ustr ''10092025'')"
    by (rule example_ymd)
  show "format_ojdate u (StrValue (ustr ''10-09-2025'')) = Inr (ustr ''10092025'')"
    by (rule example_dmy)
  show "format_ojdate u (StrValue (ustr ''10092025'')) = Inr (ustr ''10092025'')"
    by (rule example_compact)
  show "format_ojdate u (StrValue (ustr ''2025/09/10'')) = Inl ValueError"
    by (rule example_slashes)
qed

lemma digit_values_unicode0: "digit_values unicode0"
  by (auto simp: digit_values_def unicode0_def split: if_splits)

lemma strip_arabic_ymd:
  "strip unicode0 arabic_ymd = [0x662, 0x660, 0x662, 0x665] @ ustr ''-09-10''"
  by (simp add: strip_def arabic_ymd_def ustr_def is_space_def unicode0_def)

lemma shape_arabic_ymd:
  "shape_ymd unicode0 ([0x662, 0x660, 0x662, 0x665] @ ustr ''-09-10'')
     [0x662, 0x660, 0x662, 0x665] (ustr ''09'') (ustr ''10'')"
  by (simp add: shape_ymd_def digit_string_def is_digit_def digit_value_def unicode0_def ustr_def)

lemma ddmmyyyy_arabic:
  "ddmmyyyy unicode0 (ustr ''10'') (ustr ''09'') [0x662, 0x660, 0x662, 0x665] =
     ustr ''1009'' @ [0x662, 0x660, 0x662, 0x665]"
  by code_simp

lemma valid_time0: "valid_datetime time0"
  by (simp add: valid_datetime_def time0_def days_in_month_def)

lemma fixed_time0: "fixed 2 (day time0) @ fixed 2 (month time0) @ fixed 4 (year time0) = ''10092025''"
  by code_simp

theorem format_ojdate_accepts_witness:
  "digit_values unicode0 \<and>
   format_ojdate unicode0 (StrValue arabic_ymd) = Inr (ustr ''1009'' @ [0x662, 0x660, 0x662, 0x665]) \<and>
   length (ustr ''1009'' @ [0x662, 0x660, 0x662, 0x665]) = 8 \<and>
   digit_string unicode0 (ustr ''1009'' @ [0x662, 0x660, 0x662, 0x665]) \<and>
   valid_datetime time0 \<and> 1000 \<le> year time0 \<and>
   format_ojdate unicode0 (DateValue time0) = Inr (ustr ''10092025'')"
proof -
  note t = format_ojdate_accepts[OF digit_values_unicode0,
      of arabic_ymd "ustr ''1009'' @ [0x662, 0x660, 0x662, 0x665]" ValueError time0]
  have y: "1000 \<le> year time0" by (simp add: time0_def)
  from shape_arabic_ymd ddmmyyyy_arabic
  have "\<exists>y mo da. shape_ymd unicode0 (strip unicode0 arabic_ymd) y mo da \<and>
          ustr ''1009'' @ [0x662, 0x660, 0x662, 0x665] = ddmmyyyy unicode0 da mo y"
    unfolding strip_arabic_ymd by metis
  with t have a: "format_ojdate unicode0 (StrValue arabic_ymd) =
      Inr (ustr ''1009'' @ [0x662, 0x660, 0x662, 0x665])" by blast
  with t have b: "length (ustr ''1009'' @ [0x662, 0x660, 0x662, 0x665]) = 8"
    "digit_string unicode0 (ustr ''1009'' @ [0x662, 0x660, 0x662, 0x665])" by blast+
  from t valid_time0 y have "format_ojdate unicode0 (DateValue time0) =
      Inr (ustr (fixed 2 (day time0) @ fixed 2 (month time0) @ fixed 4 (year time0)))" by blast
  then have c: "format_ojdate unicode0 (DateValue time0) = Inr (ustr ''10092025'')"
    unfolding fixed_time0 .
  from digit_values_unicode0 a b valid_time0 y c show ?thesis by blast
qed

lemma not_spec_fixed_width: "\<not> spec_fixed_width (ustr ''2025-9-1'')"
  by (simp add: spec_fixed_width_def ustr_def ascii_digit_def)

lemma shape_short:
  "shape_ymd unicode0 (strip unicode0 (ustr ''2025-9-1'')) (ustr ''2025'') (ustr ''9'') (ustr ''1'')"
proof -
  have s: "strip unicode0 (ustr ''2025-9-1'') = ustr ''2025-9-1''"
    by (rule strip_ascii_text) (simp_all add: ustr_def is_space_def)
  show ?thesis unfolding s
    by (simp add: shape_ymd_def digit_string_def is_digit_def digit_value_def ustr_def)
qed

lemma ddmmyyyy_short:
  "ddmmyyyy unicode0 (ustr ''1'') (ustr ''9'') (ustr ''2025'') = ustr ''01092025''"
  by code_simp

lemma format_date_999: "format_ojdate unicode0 (DateValue date_999) = Inr (ustr ''0201999'')"
proof -
  have "strftime_dmY False date_999 = ''0201999''" by code_simp
  then show ?thesis by (simp add: format_ojdate_def unicode0_def)
qed

lemma format_arabic_ymd:
  "format_ojdate unicode0 (StrValue arabic_ymd) = Inr (ustr ''1009'' @ [0x662, 0x660, 0x662, 0x665])"
proof -
  have "shape_ymd unicode0 (strip unicode0 arabic_ymd)
     [0x662, 0x660, 0x662, 0x665] (ustr ''09'') (ustr ''10'')"
    unfolding strip_arabic_ymd by (rule shape_arabic_ymd)
  from format_ojdate_ymd[OF digit_values_unicode0 this] show ?thesis
    unfolding ddmmyyyy_arabic .
qed

lemma arabic_not_ascii:
  "\<not> spec_fixed_width arabic_ymd \<and>
   \<not> list_all ascii_digit (ustr ''1009'' @ [0x662, 0x660, 0x662, 0x665])"
  by (simp add: spec_fixed_width_def arabic_ymd_def ustr_def ascii_digit_def)

theorem format_ojdate_fixed_width_counterexample:
  "format_ojdate unicode0 (StrValue (ustr ''2025-9-1'')) = Inr (ustr ''01092025'') \<and>
   \<not> spec_fixed_width (ustr ''2025-9-1'') \<and>
   format_ojdate unicode0 (StrValue arabic_ymd) = Inr (ustr ''1009'' @ [0x662, 0x660, 0x662, 0x665]) \<and>
   \<not> spec_fixed_width arabic_ymd \<and>
   \<not> list_all ascii_digit (ustr ''1009'' @ [0x662, 0x660, 0x662, 0x665]) \<and>
   valid_datetime date_999 \<and>
   format_ojdate unicode0 (DateValue date_999) = Inr (ustr ''0201999'') \<and>
   length (ustr ''0201999'') = 7"
proof -
  have "format_ojdate unicode0 (StrValue (ustr ''2025-9-1'')) = Inr (ustr ''01092025'')"
    using format_ojdate_ymd[OF digit_values_unicode0 shape_short] unfolding ddmmyyyy_short .
  moreover have "valid_datetime date_999"
    by (simp add: valid_datetime_def date_999_def days_in_month_def)
  moreover have "length (ustr ''0201999'') = 7" by simp
  ultimately show ?thesis
    using not_spec_fixed_width format_date_999 format_arabic_ymd arabic_not_ascii by blast
qed

section \<open>The LLM analysis boundary: proofs\<close>

lemma analyze_compliance_returns: "\<exists>r. analyze_compliance e b = Inr r"
  by (simp add: analyze_compliance_def split: sum.splits)

lemma response0_content: "response_content response0 = Inr (JStr ''not json'')"
  by (simp add: response_content_def response0_def dict_get_def index0_def)

lemma response_deep_content: "response_content response_deep = Inr (JStr deep0)"
  by (simp add: response_content_def response_deep_def dict_get_def index0_def)

lemma deep0_not_short: "deep0 \<noteq> ''{}''" "deep0 \<noteq> ''not json''"
proof -
  have l: "length deep0 = 1000" by (simp add: deep0_def)
  show "deep0 \<noteq> ''{}''"
  proof
    assume "deep0 = ''{}''"
    then have "length deep0 = length ''{}''" by (rule arg_cong)
    with l show False by simp
  qed
  show "deep0 \<noteq> ''not json''"
  proof
    assume "deep0 = ''not json''"
    then have "length deep0 = length ''not json''" by (rule arg_cong)
    with l show False by simp
  qed
qed

text \<open>
  Claim C6, as the code has it. Take a model response whose content is a string that is
  not parseable as JSON. When \<open>json.loads\<close> rejects it with \<open>JSONDecodeError\<close>,
  \<open>analyze_compliance\<close> returns a result object in which \<open>regulatory_requirements\<close>,
  \<open>compliance_gaps\<close> and \<open>risks\<close> each hold one explanatory message,
  \<open>action_items\<close> is empty, \<open>overall_compliance_score\<close> is zero and
  \<open>raw_response\<close> is the content as received; \<open>analysis_date\<close> and
  \<open>business_info\<close> are added as for every result. When \<open>json.loads\<close> fails with
  another exception (\<open>RecursionError\<close> on text nested too deeply), the result is the
  object of a technical error: \<open>regulatory_requirements\<close>, \<open>compliance_gaps\<close> and
  \<open>action_items\<close> empty, one message in \<open>risks\<close>, a score of zero, the text of the
  exception under \<open>error\<close>, and no raw response. Whatever the API call and the parser
  do, the function returns a value and raises nothing.
\<close>

theorem malformed_output_fallback:
  assumes "call_deepseek_api e = Inr response"
    and "response_content response = Inr (JStr s)"
  shows "(json_loads e s = JSONDecodeError \<longrightarrow>
            analyze_compliance e business_info = Inr (fallback_result e s business_info)) \<and>
         (json_loads e s = Raised x \<longrightarrow>
            analyze_compliance e business_info =
              Inr (JObj [(''error'', JStr (exc_text e x)),
                         (''regulatory_requirements'', JArr []),
                         (''compliance_gaps'', JArr []),
                         (''action_items'', JArr []),
                         (''risks'', JArr [JStr ''Unable to complete analysis due to technical error'']),
                         (''overall_compliance_score'', JInt 0),
                         (''analysis_date'', JStr (isoformat (llm_now e)))])) \<and>
         (\<exists>r. analyze_compliance e' b = Inr r)"
proof (intro conjI impI)
  assume "json_loads e s = JSONDecodeError"
  with assms show "analyze_compliance e business_info = Inr (fallback_result e s business_info)"
    by (simp add: analyze_compliance_def analysis_body_def loads_or_fallback_def parse_fallback_def
        set_item_def fallback_result_def)
next
  assume "json_loads e s = Raised x"
  with assms show "analyze_compliance e business_info =
              Inr (JObj [(''error'', JStr (exc_text e x)),
                         (''regulatory_requirements'', JArr []),
                         (''compliance_gaps'', JArr []),
                         (''action_items'', JArr []),
                         (''risks'', JArr [JStr ''Unable to complete analysis due to technical error'']),
                         (''overall_compliance_score'', JInt 0),
                         (''analysis_date'', JStr (isoformat (llm_now e)))])"
    by (simp add: analyze_compliance_def analysis_body_def loads_or_fallback_def technical_error_def)
next
  show "\<exists>r. analyze_compliance e' b = Inr r" by (rule analyze_compliance_returns)
qed

theorem malformed_output_fallback_witness:
  "analyze_compliance llm_env0 [] = Inr (fallback_result llm_env0 ''not json'' []) \<and>
   analyze_compliance llm_env_deep [] =
     Inr (JObj [(''error'', JStr ''error''),
                (''regulatory_requirements'', JArr []),
                (''compliance_gaps'', JArr []),
                (''action_items'', JArr []),
                (''risks'', JArr [JStr ''Unable to complete analysis due to technical error'']),
                (''overall_compliance_score'', JInt 0),
                (''analysis_date'', JStr ''2025-09-10T12:00:00'')])"
proof -
  have 1: "call_deepseek_api llm_env0 = Inr response0" by (simp add: llm_env0_def)
  have 2: "json_loads llm_env0 ''not json'' = JSONDecodeError"
    by (simp add: llm_env0_def loads0_def deep0_not_short[symmetric])
  from malformed_output_fallback[OF 1 response0_content, of "[]" RecursionError llm_env0 "[]"] 2
  have a: "analyze_compliance llm_env0 [] = Inr (fallback_result llm_env0 ''not json'' [])"
    by blast
  have 3: "call_deepseek_api llm_env_deep = Inr response_deep" by (simp add: llm_env_deep_def)
  have 4: "json_loads llm_env_deep deep0 = Raised RecursionError"
    by (simp add: llm_env_deep_def llm_env0_def loads0_def deep0_not_short)
  have 5: "exc_text llm_env_deep RecursionError = ''error''"
    by (simp add: llm_env_deep_def llm_env0_def)
  have 6: "isoformat (llm_now llm_env_deep) = ''2025-09-10T12:00:00''"
    unfolding llm_env_deep_def llm_env0_def by code_simp
  from malformed_output_fallback[OF 3 response_deep_content, of "[]" RecursionError llm_env_deep "[]"] 4
  have b: "analyze_compliance llm_env_deep [] =
     Inr (JObj [(''error'', JStr ''error''),
                (''regulatory_requirements'', JArr []),
                (''compliance_gaps'', JArr []),
                (''action_items'', JArr []),
                (''risks'', JArr [JStr ''Unable to complete analysis due to technical error'']),
                (''overall_compliance_score'', JInt 0),
                (''analysis_date'', JStr ''2025-09-10T12:00:00'')])"
    unfolding 5 6 by blast
  from a b show ?thesis ..
qed

lemma loads0_not_json: "json_loads llm_env0 ''not json'' = JSONDecodeError"
  by (simp add: llm_env0_def loads0_def deep0_not_short[symmetric])

lemma analyze_not_json:
  "analyze_compliance llm_env0 [] =
     Inr (JObj [(''regulatory_requirements'', JArr [JStr ''Error parsing AI response'']),
                (''compliance_gaps'', JArr [JStr ''Please try again'']),
                (''action_items'', JArr []),
                (''risks'', JArr [JStr ''Unable to complete analysis'']),
                (''overall_compliance_score'', JInt 0),
                (''raw_response'', JStr ''not json''),
                (''analysis_date'', JStr (isoformat time0)),
                (''business_info'', JObj [])])"
  using response0_content loads0_not_json
  by (simp add: analyze_compliance_def analysis_body_def loads_or_fallback_def parse_fallback_def
      set_item_def llm_env0_def)

lemma isoformat_time0: "isoformat time0 = ''2025-09-10T12:00:00''"
  by code_simp

theorem malformed_output_arrays_counterexample:
  "json_loads llm_env0 ''not json'' = JSONDecodeError \<and>
   analyze_compliance llm_env0 [] =
     Inr (JObj [(''regulatory_requirements'', JArr [JStr ''Error parsing AI response'']),
                (''compliance_gaps'', JArr [JStr ''Please try again'']),
                (''action_items'', JArr []),
                (''risks'', JArr [JStr ''Unable to complete analysis'']),
                (''overall_compliance_score'', JInt 0),
                (''raw_response'', JStr ''not json''),
                (''analysis_date'', JStr ''2025-09-10T12:00:00''),
                (''business_info'', JObj [])]) \<and>
   JArr [JStr ''Error parsing AI response''] \<noteq> JArr []"
  using loads0_not_json analyze_not_json unfolding isoformat_time0 by simp

section \<open>The cycle: proofs\<close>

lemma merge_updates_world:
  "merge_updates e rt us (ex, hn, w) = (l, h, w') \<Longrightarrow>
     regulatory_updates_db w' = regulatory_updates_db w \<and>
     client_alerts_db w' = client_alerts_db w \<and> clients_db w' = clients_db w \<and>
     outbox w' = outbox w"
proof (induction us arbitrary: ex hn w)
  case Nil
  then show ?case by simp
next
  case (Cons u us)
  show ?case
  proof (cases "is_new ex u")
    case True
    with Cons.prems have
      "merge_updates e rt us (ex @ [AList.update ''discovered_date'' (isoformat (clock e (ticks w))) u],
          True, logger_info (''New update found for '' @ rt @ '': '' @ py_str (title_of u))
                  (w\<lparr>ticks := Suc (ticks w)\<rparr>)) = (l, h, w')"
      by (simp add: Let_def datetime_now_def)
    from Cons.IH[OF this] show ?thesis by (simp add: logger_info_def)
  next
    case False
    with Cons.prems have "merge_updates e rt us (ex, hn, w) = (l, h, w')" by simp
    from Cons.IH[OF this] show ?thesis .
  qed
qed

lemma merge_sources_world:
  "merge_sources e inc (ex, hn, w) = (m, h, w') \<Longrightarrow>
     regulatory_updates_db w' = regulatory_updates_db w \<and>
     client_alerts_db w' = client_alerts_db w \<and> clients_db w' = clients_db w \<and>
     outbox w' = outbox w"
proof (induction inc arbitrary: ex hn w)
  case Nil
  then show ?case by simp
next
  case (Cons p rest)
  obtain rt us where p: "p = (rt, us)" by (cases p)
  from Cons.prems[unfolded p] obtain l h1 w1 where
    1: "merge_updates e rt us (records_of ex rt, hn, w) = (l, h1, w1)" and
    2: "merge_sources e rest (AList.update rt l (with_key rt ex), h1, w1) = (m, h, w')"
    by (rule merge_sources_step)
  from merge_updates_world[OF 1] Cons.IH[OF 2] show ?case by simp
qed

lemma check_regulatory_updates_merge:
  assumes "check_for_updates e = Some new_updates"
    and "merge_sources e new_updates (existing_of w, False, loaded w) = (merged, has_new, w2)"
  shows "check_regulatory_updates e w =
     (if has_new then
        (case updates_write e of
           WriteOk \<Rightarrow>
             (case check_and_send_alerts e (logger_info ''Saved updated regulatory data''
                                    (w2\<lparr>regulatory_updates_db := Some merged\<rparr>)) of
                (None, w4) \<Rightarrow> (Inr True, w4)
              | (Some err, w4) \<Rightarrow> (Inr True, logger_error ''Error saving regulatory updates'' w4))
         | OpenFails \<Rightarrow> (Inr True, logger_error ''Error saving regulatory updates'' w2)
         | DumpFails \<Rightarrow> (Inr True, logger_error ''Error saving regulatory updates''
                                     (w2\<lparr>regulatory_updates_db := None\<rparr>)))
      else (Inr False, w2))"
  using assms
  by (cases "regulatory_updates_db w")
     (auto simp: check_regulatory_updates_def Let_def existing_of_def loaded_def logger_info_def
        logger_error_def split: prod.splits option.splits write_outcome.splits)

text \<open>
  Claim C3, as the code has it. In a cycle whose merge found new records and whose write
  of the update log fails, the exception is caught inside the cycle: the caller gets the
  ordinary return value \<open>True\<close> and no exception, the failure is written to the log
  as an error, and no alert evaluation takes place (the clock is not read again, no
  message is sent, the alert history is as before). When the file could not be opened for
  writing, the persisted update log is what it was, so the next cycle merges against the
  prior state.
\<close>

theorem write_failure_is_logged_not_raised:
  assumes "check_for_updates e = Some new_updates"
    and "merge_sources e new_updates (existing_of w, False, loaded w) = (merged, True, w2)"
    and "updates_write e \<noteq> WriteOk"
  shows "fst (check_regulatory_updates e w) = Inr True \<and>
         logs (snd (check_regulatory_updates e w)) =
           logs w2 @ [LogError ''Error saving regulatory updates''] \<and>
         ticks (snd (check_regulatory_updates e w)) = ticks w2 \<and>
         client_alerts_db (snd (check_regulatory_updates e w)) = client_alerts_db w \<and>
         outbox (snd (check_regulatory_updates e w)) = outbox w \<and>
         (updates_write e = OpenFails \<longrightarrow>
            regulatory_updates_db (snd (check_regulatory_updates e w)) = regulatory_updates_db w)"
proof -
  have l: "regulatory_updates_db (loaded w) = regulatory_updates_db w"
    "client_alerts_db (loaded w) = client_alerts_db w" "outbox (loaded w) = outbox w"
    by (simp_all add: loaded_def logger_info_def logger_error_def split: option.splits)
  from merge_sources_world[OF assms(2)] l have w2:
    "regulatory_updates_db w2 = regulatory_updates_db w"
    "client_alerts_db w2 = client_alerts_db w" "outbox w2 = outbox w" by simp_all
  show ?thesis
    using assms(3) w2
    by (cases "updates_write e")
       (simp_all add: check_regulatory_updates_merge[OF assms(1,2)] logger_error_def)
qed

lemma merge_example_open_fails:
  "merge_sources env_open_fails inc0 (existing_of world1, False, loaded world1) = (merged0, True, world1_merged)"
  by code_simp

theorem write_failure_is_logged_not_raised_witness:
  "fst (check_regulatory_updates env_open_fails world1) = Inr True \<and>
   regulatory_updates_db (snd (check_regulatory_updates env_open_fails world1)) = Some ex0 \<and>
   outbox (snd (check_regulatory_updates env_open_fails world1)) = []"
proof -
  have 1: "check_for_updates env_open_fails = Some inc0" by (simp add: env_open_fails_def)
  have 3: "updates_write env_open_fails \<noteq> WriteOk" by (simp add: env_open_fails_def)
  have 4: "updates_write env_open_fails = OpenFails" by (simp add: env_open_fails_def)
  from write_failure_is_logged_not_raised[OF 1 merge_example_open_fails 3] 4
  show ?thesis by (simp add: world1_def world0_def)
qed

theorem write_failure_not_reported_counterexample:
  "updates_write env_open_fails = OpenFails \<and>
   fst (check_regulatory_updates env_open_fails world1) = Inr True \<and>
   updates_write env_write_ok = WriteOk \<and>
   fst (check_regulatory_updates env_write_ok world1) = Inr True"
  by code_simp

section \<open>One evaluation: the two outcomes\<close>

lemma send_loop_eq:
  "send_loop e body cs w =
     w\<lparr>logs := logs w @ map (delivery_log e) cs, outbox := outbox w @ delivered e body cs\<rparr>"
proof (induction cs arbitrary: w)
  case Nil
  then show ?case by (simp add: delivered_def)
next
  case (Cons c cs)
  obtain cid ci where c: "c = (cid, ci)" by (cases c)
  show ?case
    by (simp add: c Cons.IH logger_info_def logger_error_def delivery_log_def delivered_def)
qed

lemma check_and_send_alerts_fire:
  assumes "regulatory_updates_db w = Some updates"
    and "client_alerts_db w = Some ledger"
    and "clients_db w = Some cs"
    and "minus_days (clock e (ticks w)) 7 = Inr th"
    and "int (count_recent updates (isoformat th) 0) \<ge> alert_threshold e"
  shows "check_and_send_alerts e w =
     (None, save_alert_history e
        (AList.update (alert_id_at e w)
           (alert_event_at e w (count_recent updates (isoformat th) 0)) ledger)
        (w\<lparr>logs := logs w @ LogInfo (''Alert threshold reached: '' @
                     digits (count_recent updates (isoformat th) 0) @
                     '' updates in the last 7 days'') # map (delivery_log e) cs,
           outbox := outbox w @ delivered e (html_body updates) cs,
           ticks := Suc (Suc (Suc (ticks w)))\<rparr>))"
  using assms
  by (simp add: check_and_send_alerts_def Let_def datetime_now_def send_alerts_to_clients_def
      send_loop_eq record_alert_def logger_info_def alert_id_at_def alert_event_at_def)

lemma check_and_send_alerts_quiet:
  assumes "regulatory_updates_db w = Some updates"
    and "client_alerts_db w = Some ledger"
    and "clients_db w = Some cs"
    and "minus_days (clock e (ticks w)) 7 = Inr th"
    and "\<not> int (count_recent updates (isoformat th) 0) \<ge> alert_threshold e"
  shows "check_and_send_alerts e w = (None, w\<lparr>ticks := Suc (ticks w)\<rparr>)"
  using assms
  by (simp add: check_and_send_alerts_def Let_def datetime_now_def)

section \<open>Dispatch and the alert history: proofs\<close>

lemma threshold8: "minus_days (clock env8 (ticks world8)) 7 = Inr threshold8"
  by code_simp

lemma count8: "count_recent log8 (isoformat threshold8) 0 = 3"
  by code_simp

text \<open>
  Claim C8. When the threshold is reached, every recipient is tried in turn, whatever
  happened to the ones before: each recipient whose delivery goes through receives the
  message, each recipient whose delivery fails gets an error line of its own in the log
  and stops nothing, no exception leaves the evaluation, and the alert is then written
  to the alert history with \<open>updates_sent = True\<close>, whether or not some (or all)
  deliveries failed.
\<close>

theorem delivery_failure_does_not_stop_dispatch:
  assumes "regulatory_updates_db w = Some updates"
    and "client_alerts_db w = Some ledger"
    and "clients_db w = Some cs"
    and "minus_days (clock e (ticks w)) 7 = Inr th"
    and "int (count_recent updates (isoformat th) 0) \<ge> alert_threshold e"
    and "alerts_write e = WriteOk"
  shows "fst (check_and_send_alerts e w) = None \<and>
         outbox (snd (check_and_send_alerts e w)) =
           outbox w @ map (\<lambda>client. (get (snd client) ''email'' '''', html_body updates))
                        (filter (\<lambda>client. smtp_ok e (fst client)) cs) \<and>
         (\<forall>client\<in>set cs. smtp_ok e (fst client) \<longrightarrow>
            (get (snd client) ''email'' '''', html_body updates)
              \<in> set (outbox (snd (check_and_send_alerts e w)))) \<and>
         (\<forall>client\<in>set cs. \<not> smtp_ok e (fst client) \<longrightarrow>
            LogError (''Failed to send alert to '' @ get (snd client) ''email'' '''')
              \<in> set (logs (snd (check_and_send_alerts e w)))) \<and>
         client_alerts_db (snd (check_and_send_alerts e w)) =
           Some (AList.update (alert_id_at e w)
                   (alert_event_at e w (count_recent updates (isoformat th) 0)) ledger) \<and>
         updates_sent (alert_event_at e w (count_recent updates (isoformat th) 0))"
proof -
  note eq = check_and_send_alerts_fire[OF assms(1-5)]
  have 1: "fst (check_and_send_alerts e w) = None" by (simp add: eq)
  have 2: "outbox (snd (check_and_send_alerts e w)) =
           outbox w @ map (\<lambda>client. (get (snd client) ''email'' '''', html_body updates))
                        (filter (\<lambda>client. smtp_ok e (fst client)) cs)"
    by (simp add: eq save_alert_history_def assms(6) logger_info_def delivered_def)
  have 3: "\<forall>client\<in>set cs. smtp_ok e (fst client) \<longrightarrow>
            (get (snd client) ''email'' '''', html_body updates)
              \<in> set (outbox (snd (check_and_send_alerts e w)))"
    unfolding 2 by auto
  have l: "logs (snd (check_and_send_alerts e w)) =
       logs w @ LogInfo (''Alert threshold reached: '' @
                     digits (count_recent updates (isoformat th) 0) @
                     '' updates in the last 7 days'') # map (delivery_log e) cs @
       [LogInfo ''Updated alert history'']"
    by (simp add: eq save_alert_history_def assms(6) logger_info_def)
  have 4: "\<forall>client\<in>set cs. \<not> smtp_ok e (fst client) \<longrightarrow>
            LogError (''Failed to send alert to '' @ get (snd client) ''email'' '''')
              \<in> set (logs (snd (check_and_send_alerts e w)))"
  proof (intro ballI impI)
    fix client assume c: "client \<in> set cs" "\<not> smtp_ok e (fst client)"
    then have "delivery_log e client = LogError (''Failed to send alert to '' @ get (snd client) ''email'' '''')"
      by (simp add: delivery_log_def)
    with c(1) have "LogError (''Failed to send alert to '' @ get (snd client) ''email'' '''')
        \<in> delivery_log e ` set cs" by (metis imageI)
    then show "LogError (''Failed to send alert to '' @ get (snd client) ''email'' '''')
              \<in> set (logs (snd (check_and_send_alerts e w)))"
      unfolding l by simp
  qed
  have 5: "client_alerts_db (snd (check_and_send_alerts e w)) =
           Some (AList.update (alert_id_at e w)
                   (alert_event_at e w (count_recent updates (isoformat th) 0)) ledger)"
    by (simp add: eq save_alert_history_def assms(6) logger_info_def)
  have 6: "updates_sent (alert_event_at e w (count_recent updates (isoformat th) 0))"
    by (simp add: alert_event_at_def)
  from 1 2 3 4 5 6 show ?thesis by blast
qed

theorem delivery_failure_does_not_stop_dispatch_witness:
  "outbox (snd (check_and_send_alerts env8 world8)) = [(''b@example.eu'', html_body log8)] \<and>
   LogError ''Failed to send alert to a@example.eu''
     \<in> set (logs (snd (check_and_send_alerts env8 world8))) \<and>
   client_alerts_db (snd (check_and_send_alerts env8 world8)) =
     Some [(''alert_20250910_120001'',
            \<lparr>ev_id = ''alert_20250910_120001'', ev_date = ''2025-09-10T12:00:02'',
             update_count = 3, updates_sent = True\<rparr>)]"
proof -
  have 1: "regulatory_updates_db world8 = Some log8" by (simp add: world8_def)
  have 2: "client_alerts_db world8 = Some []" by (simp add: world8_def)
  have 3: "clients_db world8 = Some clients8" by (simp add: world8_def)
  have 5: "int (count_recent log8 (isoformat threshold8) 0) \<ge> alert_threshold env8"
    unfolding count8 by code_simp
  have 6: "alerts_write env8 = WriteOk" by (simp add: env8_def env0_def)
  note t = delivery_failure_does_not_stop_dispatch[OF 1 2 3 threshold8 5 6]
  have a: "alert_id_at env8 world8 = ''alert_20250910_120001''" by code_simp
  have b: "alert_event_at env8 world8 3 =
     \<lparr>ev_id = ''alert_20250910_120001'', ev_date = ''2025-09-10T12:00:02'',
             update_count = 3, updates_sent = True\<rparr>" by code_simp
  have o: "outbox world8 = []" by (simp add: world8_def world0_def)
  have c1: "(''c1'', [(''email'', ''a@example.eu'')]) \<in> set clients8" by (simp add: clients8_def)
  have f: "\<not> smtp_ok env8 (fst (''c1'', [(''email'', ''a@example.eu'')]))" by (simp add: env8_def)
  have g: "get (snd (''c1'', [(''email'', ''a@example.eu'')])) ''email'' '''' = ''a@example.eu''"
    by (simp add: get_def)
  from t have "\<forall>client\<in>set clients8. \<not> smtp_ok env8 (fst client) \<longrightarrow>
            LogError (''Failed to send alert to '' @ get (snd client) ''email'' '''')
              \<in> set (logs (snd (check_and_send_alerts env8 world8)))" by blast
  from this[rule_format, OF c1 f]
  have l: "LogError ''Failed to send alert to a@example.eu''
     \<in> set (logs (snd (check_and_send_alerts env8 world8)))" unfolding g by simp
  from t have "outbox (snd (check_and_send_alerts env8 world8)) =
           outbox world8 @ map (\<lambda>client. (get (snd client) ''email'' '''', html_body log8))
                        (filter (\<lambda>client. smtp_ok env8 (fst client)) clients8)" by blast
  then have ob: "outbox (snd (check_and_send_alerts env8 world8)) = [(''b@example.eu'', html_body log8)]"
    by (simp add: o clients8_def env8_def get_def)
  from t have "client_alerts_db (snd (check_and_send_alerts env8 world8)) =
           Some (AList.update (alert_id_at env8 world8)
                   (alert_event_at env8 world8 (count_recent log8 (isoformat threshold8) 0)) [])"
    by blast
  then have led: "client_alerts_db (snd (check_and_send_alerts env8 world8)) =
     Some [(''alert_20250910_120001'',
            \<lparr>ev_id = ''alert_20250910_120001'', ev_date = ''2025-09-10T12:00:02'',
             update_count = 3, updates_sent = True\<rparr>)]"
    unfolding count8 a b by simp
  from ob l led show ?thesis by blast
qed

lemma send_loop_ledger [simp]: "client_alerts_db (send_loop e body cs w) = client_alerts_db w"
  by (simp add: send_loop_eq)

lemma send_loop_ticks [simp]: "ticks (send_loop e body cs w) = ticks w"
  by (simp add: send_loop_eq)

lemma check_and_send_alerts_ledger:
  assumes "client_alerts_db w = Some ledger" and "alerts_write e \<noteq> DumpFails"
  shows "client_alerts_db (snd (check_and_send_alerts e w)) = Some ledger \<or>
         (\<exists>n. client_alerts_db (snd (check_and_send_alerts e w)) =
                Some (AList.update (alert_id_at e w) (alert_event_at e w n) ledger))"
proof (cases "regulatory_updates_db w")
  case None
  with assms show ?thesis by (simp add: check_and_send_alerts_def logger_error_def)
next
  case (Some updates)
  define w2 where "w2 = (case clients_db w of Some c \<Rightarrow> w
                         | None \<Rightarrow> logger_error ''Error loading clients'' w)"
  have w2: "client_alerts_db w2 = Some ledger" "ticks w2 = ticks w"
    using assms(1) by (simp_all add: w2_def logger_error_def split: option.splits)
  show ?thesis
  proof (cases "minus_days (clock e (ticks w)) 7")
    case (Inl err)
    with Some assms show ?thesis
      by (simp add: check_and_send_alerts_def Let_def datetime_now_def logger_error_def
          split: option.splits)
  next
    case (Inr th)
    show ?thesis
    proof (cases "int (count_recent updates (isoformat th) 0) \<ge> alert_threshold e")
      case False
      with Some Inr assms show ?thesis
        by (simp add: check_and_send_alerts_def Let_def datetime_now_def logger_error_def
            split: option.splits)
    next
      case True
      with Some Inr assms show ?thesis
        by (cases "alerts_write e")
           (auto simp: check_and_send_alerts_def Let_def datetime_now_def logger_error_def
              logger_info_def send_alerts_to_clients_def record_alert_def save_alert_history_def
              alert_id_at_def alert_event_at_def split: option.splits)
    qed
  qed
qed

lemma length_update_ge: "length al \<le> length (AList.update k v al)"
  by (induction al) auto

lemma check_and_send_alerts_records:
  assumes "regulatory_updates_db w = Some updates"
    and "client_alerts_db w = Some ledger"
    and "minus_days (clock e (ticks w)) 7 = Inr th"
    and "int (count_recent updates (isoformat th) 0) \<ge> alert_threshold e"
    and "alerts_write e = WriteOk"
  shows "client_alerts_db (snd (check_and_send_alerts e w)) =
           Some (AList.update (alert_id_at e w)
                   (alert_event_at e w (count_recent updates (isoformat th) 0)) ledger)"
  using assms
  by (cases "clients_db w")
     (simp_all add: check_and_send_alerts_def Let_def datetime_now_def logger_error_def
        logger_info_def send_alerts_to_clients_def record_alert_def save_alert_history_def
        alert_id_at_def alert_event_at_def send_loop_eq)

text \<open>
  Claim C9, as the code has it. The alert history is a dictionary keyed by the alert id,
  and the id is the firing time cut to the second. Take an evaluation whose history file
  is readable and whose write of the history does not break off after the file has been
  opened. The history it leaves holds every id it held before, is no shorter, and has the
  event of every id other than the new one exactly as it was. When the threshold is
  reached and the write succeeds, the history afterwards is the one before with the new
  event stored under the new id: an event that was there under the same id, an alert
  fired within the same second, is replaced by the new event.
\<close>

theorem ledger_keeps_events_of_other_ids:
  assumes "client_alerts_db w = Some ledger" and "alerts_write e \<noteq> DumpFails"
  shows "(\<exists>ledger'. client_alerts_db (snd (check_and_send_alerts e w)) = Some ledger' \<and>
           fst ` set ledger \<subseteq> fst ` set ledger' \<and>
           length ledger \<le> length ledger' \<and>
           (\<forall>k. k \<noteq> alert_id_at e w \<longrightarrow> map_of ledger' k = map_of ledger k)) \<and>
         (regulatory_updates_db w = Some updates \<and>
          minus_days (clock e (ticks w)) 7 = Inr th \<and>
          int (count_recent updates (isoformat th) 0) \<ge> alert_threshold e \<and>
          alerts_write e = WriteOk \<longrightarrow>
            client_alerts_db (snd (check_and_send_alerts e w)) =
              Some (AList.update (alert_id_at e w)
                      (alert_event_at e w (count_recent updates (isoformat th) 0)) ledger) \<and>
            map_of (AList.update (alert_id_at e w)
                      (alert_event_at e w (count_recent updates (isoformat th) 0)) ledger)
                   (alert_id_at e w) =
              Some (alert_event_at e w (count_recent updates (isoformat th) 0)))"
proof (intro conjI impI)
  from check_and_send_alerts_ledger[OF assms]
  consider "client_alerts_db (snd (check_and_send_alerts e w)) = Some ledger"
    | n where "client_alerts_db (snd (check_and_send_alerts e w)) =
                Some (AList.update (alert_id_at e w) (alert_event_at e w n) ledger)"
    by blast
  then show "\<exists>ledger'. client_alerts_db (snd (check_and_send_alerts e w)) = Some ledger' \<and>
           fst ` set ledger \<subseteq> fst ` set ledger' \<and>
           length ledger \<le> length ledger' \<and>
           (\<forall>k. k \<noteq> alert_id_at e w \<longrightarrow> map_of ledger' k = map_of ledger k)"
  proof cases
    case 1
    then show ?thesis by simp
  next
    case 2
    have "fst ` set ledger \<subseteq> fst ` set (AList.update (alert_id_at e w) (alert_event_at e w n) ledger)"
      by (auto simp: dom_update)
    moreover have "length ledger \<le> length (AList.update (alert_id_at e w) (alert_event_at e w n) ledger)"
      by (rule length_update_ge)
    moreover have "\<forall>k. k \<noteq> alert_id_at e w \<longrightarrow>
       map_of (AList.update (alert_id_at e w) (alert_event_at e w n) ledger) k = map_of ledger k"
      by (simp add: update_conv')
    ultimately show ?thesis using 2 by blast
  qed
next
  assume h: "regulatory_updates_db w = Some updates \<and>
          minus_days (clock e (ticks w)) 7 = Inr th \<and>
          int (count_recent updates (isoformat th) 0) \<ge> alert_threshold e \<and>
          alerts_write e = WriteOk"
  then show "client_alerts_db (snd (check_and_send_alerts e w)) =
              Some (AList.update (alert_id_at e w)
                      (alert_event_at e w (count_recent updates (isoformat th) 0)) ledger)"
    using check_and_send_alerts_records[OF _ assms(1), of updates e th] by blast
next
  show "map_of (AList.update (alert_id_at e w)
                      (alert_event_at e w (count_recent updates (isoformat th) 0)) ledger)
                   (alert_id_at e w) =
              Some (alert_event_at e w (count_recent updates (isoformat th) 0))"
    by (simp add: update_conv')
qed

lemma threshold9: "minus_days (time0\<lparr>microsecond := m\<rparr>) 7 = Inr (time0\<lparr>day := 3, microsecond := m\<rparr>)"
  by (simp add: time0_def prev_day_def eval_nat_numeral)

lemma count9a: "count_recent log9 (isoformat (time0\<lparr>day := 3, microsecond := 1\<rparr>)) 0 = 1"
  by code_simp

lemma count9b: "count_recent log8 (isoformat (time0\<lparr>day := 3, microsecond := 4\<rparr>)) 0 = 3"
  by code_simp

theorem ledger_keeps_events_of_other_ids_witness:
  "client_alerts_db world9c =
     Some [(''alert_20250901_080000'', old_event9), (''alert_20250910_120000'', same_second_event9)] \<and>
   client_alerts_db (snd (check_and_send_alerts env9 world9c)) =
     Some [(''alert_20250901_080000'', old_event9),
           (''alert_20250910_120000'',
            \<lparr>ev_id = ''alert_20250910_120000'', ev_date = ''2025-09-10T12:00:00.000003'',
             update_count = 1, updates_sent = True\<rparr>)]"
proof -
  have 1: "client_alerts_db world9c =
     Some [(''alert_20250901_080000'', old_event9), (''alert_20250910_120000'', same_second_event9)]"
    by (simp add: world9c_def)
  have 2: "alerts_write env9 \<noteq> DumpFails" and wr: "alerts_write env9 = WriteOk"
    by (simp_all add: env9_def env0_def)
  have u: "regulatory_updates_db world9c = Some log9"
    by (simp add: world9c_def world9_def)
  have m: "minus_days (clock env9 (ticks world9c)) 7 = Inr (time0\<lparr>day := 3, microsecond := 1\<rparr>)"
    by (simp add: env9_def world9c_def world9_def world0_def threshold9)
  have t: "int (count_recent log9 (isoformat (time0\<lparr>day := 3, microsecond := 1\<rparr>)) 0)
             \<ge> alert_threshold env9"
    unfolding count9a by (simp add: alert_threshold_def env9_def)
  have i: "alert_id_at env9 world9c = ''alert_20250910_120000''" by code_simp
  have v: "alert_event_at env9 world9c 1 =
      \<lparr>ev_id = ''alert_20250910_120000'', ev_date = ''2025-09-10T12:00:00.000003'',
             update_count = 1, updates_sent = True\<rparr>" by code_simp
  from ledger_keeps_events_of_other_ids[OF 1 2, of log9 "time0\<lparr>day := 3, microsecond := 1\<rparr>"]
    u m t wr
  have "client_alerts_db (snd (check_and_send_alerts env9 world9c)) =
      Some (AList.update (alert_id_at env9 world9c)
              (alert_event_at env9 world9c
                 (count_recent log9 (isoformat (time0\<lparr>day := 3, microsecond := 1\<rparr>)) 0))
              [(''alert_20250901_080000'', old_event9),
               (''alert_20250910_120000'', same_second_event9)])"
    by blast
  then have "client_alerts_db (snd (check_and_send_alerts env9 world9c)) =
     Some [(''alert_20250901_080000'', old_event9),
           (''alert_20250910_120000'',
            \<lparr>ev_id = ''alert_20250910_120000'', ev_date = ''2025-09-10T12:00:00.000003'',
             update_count = 1, updates_sent = True\<rparr>)]"
    unfolding count9a i v by simp
  with 1 show ?thesis ..
qed

lemma check_and_send_alerts_recorded:
  assumes "regulatory_updates_db w = Some updates"
    and "client_alerts_db w = Some ledger"
    and "clients_db w = Some cs"
    and "minus_days (clock e (ticks w)) 7 = Inr th"
    and "int (count_recent updates (isoformat th) 0) \<ge> alert_threshold e"
    and "alerts_write e = WriteOk"
  shows "client_alerts_db (snd (check_and_send_alerts e w)) =
           Some (AList.update (alert_id_at e w)
                   (alert_event_at e w (count_recent updates (isoformat th) 0)) ledger)"
    and "clients_db (snd (check_and_send_alerts e w)) = Some cs"
    and "ticks (snd (check_and_send_alerts e w)) = Suc (Suc (Suc (ticks w)))"
  using assms(1,2,3,6)
  by (simp_all add: check_and_send_alerts_fire[OF assms(1-5)] save_alert_history_def logger_info_def)

theorem ledger_same_second_counterexample:
  "client_alerts_db (snd (check_and_send_alerts env9 world9)) =
     Some [(''alert_20250910_120000'',
            \<lparr>ev_id = ''alert_20250910_120000'', ev_date = ''2025-09-10T12:00:00.000003'',
             update_count = 1, updates_sent = True\<rparr>)] \<and>
   client_alerts_db (snd (check_and_send_alerts env9
       ((snd (check_and_send_alerts env9 world9))\<lparr>regulatory_updates_db := Some log8\<rparr>))) =
     Some [(''alert_20250910_120000'',
            \<lparr>ev_id = ''alert_20250910_120000'', ev_date = ''2025-09-10T12:00:00.000006'',
             update_count = 3, updates_sent = True\<rparr>)]"
proof -
  define first where "first = snd (check_and_send_alerts env9 world9)"
  have c: "clock env9 = (\<lambda>k. time0\<lparr>microsecond := k + 1\<rparr>)"
    and wr: "alerts_write env9 = WriteOk" and th: "alert_threshold env9 = 1"
    by (simp_all add: env9_def env0_def alert_threshold_def)
  have w: "regulatory_updates_db world9 = Some log9" "client_alerts_db world9 = Some []"
    "clients_db world9 = Some []" "ticks world9 = 0"
    by (simp_all add: world9_def world0_def)
  have m1: "minus_days (clock env9 (ticks world9)) 7 = Inr (time0\<lparr>day := 3, microsecond := 1\<rparr>)"
    by (simp add: c w threshold9)
  have t1: "int (count_recent log9 (isoformat (time0\<lparr>day := 3, microsecond := 1\<rparr>)) 0)
              \<ge> alert_threshold env9"
    unfolding count9a th by simp
  note r1 = check_and_send_alerts_recorded[OF w(1,2,3) m1 t1 wr, folded first_def]
  have id1: "alert_id_at env9 world9 = ''alert_20250910_120000''" by code_simp
  have ev1: "alert_event_at env9 world9 1 =
      \<lparr>ev_id = ''alert_20250910_120000'', ev_date = ''2025-09-10T12:00:00.000003'',
             update_count = 1, updates_sent = True\<rparr>" by code_simp
  have l1: "client_alerts_db first = Some [(''alert_20250910_120000'',
            \<lparr>ev_id = ''alert_20250910_120000'', ev_date = ''2025-09-10T12:00:00.000003'',
             update_count = 1, updates_sent = True\<rparr>)]"
    using r1(1) unfolding count9a id1 ev1 by simp
  define second where "second = first\<lparr>regulatory_updates_db := Some log8\<rparr>"
  have w2: "regulatory_updates_db second = Some log8"
    "client_alerts_db second = Some [(''alert_20250910_120000'',
            \<lparr>ev_id = ''alert_20250910_120000'', ev_date = ''2025-09-10T12:00:00.000003'',
             update_count = 1, updates_sent = True\<rparr>)]"
    "clients_db second = Some []" "ticks second = 3"
    using r1(2,3) l1 by (simp_all add: second_def w)
  have m2: "minus_days (clock env9 (ticks second)) 7 = Inr (time0\<lparr>day := 3, microsecond := 4\<rparr>)"
    by (simp add: c w2 threshold9)
  have t2: "int (count_recent log8 (isoformat (time0\<lparr>day := 3, microsecond := 4\<rparr>)) 0)
              \<ge> alert_threshold env9"
    unfolding count9b th by simp
  note r2 = check_and_send_alerts_recorded[OF w2(1,2,3) m2 t2 wr]
  have id2: "alert_id_at env9 second = ''alert_20250910_120000''"
    unfolding alert_id_at_def c w2 by code_simp
  have ev2: "alert_event_at env9 second 3 =
      \<lparr>ev_id = ''alert_20250910_120000'', ev_date = ''2025-09-10T12:00:00.000006'',
             update_count = 3, updates_sent = True\<rparr>"
    unfolding alert_event_at_def id2 c w2 by code_simp
  have l2: "client_alerts_db (snd (check_and_send_alerts env9 second)) =
     Some [(''alert_20250910_120000'',
            \<lparr>ev_id = ''alert_20250910_120000'', ev_date = ''2025-09-10T12:00:00.000006'',
             update_count = 3, updates_sent = True\<rparr>)]"
    using r2(1) unfolding count9b id2 ev2 by simp
  from l1 l2 show ?thesis unfolding second_def first_def by simp
qed

section \<open>The notification payload: proofs\<close>




lemma length_sorted_reverse [simp]: "length (sorted_reverse f xs) = length xs"
  by (simp add: sorted_reverse_def)

lemma set_sorted_reverse [simp]: "set (sorted_reverse f xs) = set xs"
  by (simp add: sorted_reverse_def)








section \<open>The alert evaluator: the seven-day count\<close>

lemma block_less:
  "length X = length Y \<Longrightarrow> (X @ R < Y @ S) \<longleftrightarrow> X < Y \<or> (X = Y \<and> R < S)"
  for X Y :: "'a::linorder list"
  by (induction X Y rule: list_induct2) auto

lemma digit_char_mod: "digit_char (n mod 10) = digit_char n"
  by (simp add: digit_char_def)

lemma digit_char_inj: "a < 10 \<Longrightarrow> b < 10 \<Longrightarrow> digit_char a = digit_char b \<longleftrightarrow> a = b"
  using digit_char_mono[of a b] digit_char_mono[of b a] by (metis less_irrefl nat_neq_iff)

lemma lex_less_aux:
  "ra < 10 \<Longrightarrow> rb < 10 \<Longrightarrow>
     (10 * qa + ra < 10 * qb + rb) \<longleftrightarrow> qa < qb \<or> (qa = qb \<and> ra < rb)"
  for ra rb qa qb :: nat
  by arith

lemma div_mod_less: "(a::nat) < b \<longleftrightarrow> a div 10 < b div 10 \<or> (a div 10 = b div 10 \<and> a mod 10 < b mod 10)"
proof -
  have "a < b \<longleftrightarrow> 10 * (a div 10) + a mod 10 < 10 * (b div 10) + b mod 10" by simp
  also have "\<dots> \<longleftrightarrow> a div 10 < b div 10 \<or> (a div 10 = b div 10 \<and> a mod 10 < b mod 10)"
    by (rule lex_less_aux) simp_all
  finally show ?thesis .
qed

lemma div_mod_eq: "(a::nat) = b \<longleftrightarrow> a div 10 = b div 10 \<and> a mod 10 = b mod 10"
  by (metis div_mult_mod_eq)

lemma fixed_order:
  "a < 10 ^ w \<Longrightarrow> b < 10 ^ w \<Longrightarrow>
     (fixed w a < fixed w b \<longleftrightarrow> a < b) \<and> (fixed w a = fixed w b \<longleftrightarrow> a = b)"
proof (induction w arbitrary: a b)
  case 0
  then show ?case by simp
next
  case (Suc w)
  from Suc.prems have d: "a div 10 < 10 ^ w" "b div 10 < 10 ^ w"
    by (simp_all add: less_mult_imp_div_less mult.commute)
  note ih = Suc.IH[OF d]
  have m: "digit_char a < digit_char b \<longleftrightarrow> a mod 10 < b mod 10"
    using digit_char_mono[of "a mod 10" "b mod 10"] by (simp add: digit_char_mod)
  have i: "digit_char a = digit_char b \<longleftrightarrow> a mod 10 = b mod 10"
    using digit_char_inj[of "a mod 10" "b mod 10"] by (simp add: digit_char_mod)
  have "fixed (Suc w) a < fixed (Suc w) b \<longleftrightarrow>
          a div 10 < b div 10 \<or> (a div 10 = b div 10 \<and> a mod 10 < b mod 10)"
    using ih m by (simp add: block_less)
  then have L: "fixed (Suc w) a < fixed (Suc w) b \<longleftrightarrow> a < b"
    using div_mod_less[of a b] by blast
  have "fixed (Suc w) a = fixed (Suc w) b \<longleftrightarrow>
          a div 10 = b div 10 \<and> a mod 10 = b mod 10"
    using ih i by simp
  then have E: "fixed (Suc w) a = fixed (Suc w) b \<longleftrightarrow> a = b"
    using div_mod_eq[of a b] by blast
  from L E show ?case by blast
qed

lemma fixed_append_less:
  "a < 10 ^ w \<Longrightarrow> b < 10 ^ w \<Longrightarrow>
     (fixed w a @ R < fixed w b @ S) \<longleftrightarrow> a < b \<or> (a = b \<and> R < S)"
  using fixed_order[of a w b] by (simp add: block_less)

lemma days_in_month_le: "days_in_month y m \<le> 31"
  by (simp add: days_in_month_def)

lemma days_in_month_ge: "28 \<le> days_in_month y m"
  by (simp add: days_in_month_def)

lemma isoformat_fixed:
  assumes "valid_datetime d"
  shows "isoformat d =
     fixed 4 (year d) @ ''-'' @ fixed 2 (month d) @ ''-'' @ fixed 2 (day d) @ ''T'' @
     fixed 2 (hour d) @ '':'' @ fixed 2 (minute d) @ '':'' @ fixed 2 (second d) @ fraction d"
proof -
  from assms have b: "year d < 10 ^ 4" "month d < 10 ^ 2" "day d < 10 ^ 2" "hour d < 10 ^ 2"
    "minute d < 10 ^ 2" "second d < 10 ^ 2" "microsecond d < 10 ^ 6"
    using days_in_month_le[of "year d" "month d"] by (simp_all add: valid_datetime_def)
  have z: "zpad 4 (year d) = fixed 4 (year d)" "zpad 2 (month d) = fixed 2 (month d)"
    "zpad 2 (day d) = fixed 2 (day d)" "zpad 2 (hour d) = fixed 2 (hour d)"
    "zpad 2 (minute d) = fixed 2 (minute d)" "zpad 2 (second d) = fixed 2 (second d)"
    "zpad 6 (microsecond d) = fixed 6 (microsecond d)"
    using b by (simp_all add: zpad_fixed)
  show ?thesis unfolding isoformat_def z fraction_def by simp
qed

lemma fraction_less:
  assumes "microsecond a < 10 ^ 6" "microsecond b < 10 ^ 6"
  shows "fraction a < fraction b \<longleftrightarrow> microsecond a < microsecond b"
  using fixed_order[OF assms] by (auto simp: fraction_def)

lemma isoformat_less_iff:
  assumes "valid_datetime a" "valid_datetime b"
  shows "isoformat a < isoformat b \<longleftrightarrow> dt_less a b"
proof -
  from assms(1) have a: "year a < 10 ^ 4" "month a < 10 ^ 2" "day a < 10 ^ 2" "hour a < 10 ^ 2"
    "minute a < 10 ^ 2" "second a < 10 ^ 2" "microsecond a < 10 ^ 6"
    using days_in_month_le[of "year a" "month a"] by (simp_all add: valid_datetime_def)
  from assms(2) have b: "year b < 10 ^ 4" "month b < 10 ^ 2" "day b < 10 ^ 2" "hour b < 10 ^ 2"
    "minute b < 10 ^ 2" "second b < 10 ^ 2" "microsecond b < 10 ^ 6"
    using days_in_month_le[of "year b" "month b"] by (simp_all add: valid_datetime_def)
  have f: "fraction a < fraction b \<longleftrightarrow> microsecond a < microsecond b"
    using a(7) b(7) by (rule fraction_less)
  have 6: "fixed 2 (second a) @ fraction a < fixed 2 (second b) @ fraction b \<longleftrightarrow>
      second a < second b \<or> (second a = second b \<and> microsecond a < microsecond b)"
    unfolding fixed_append_less[OF a(6) b(6)] f ..
  have 5: "fixed 2 (minute a) @ '':'' @ fixed 2 (second a) @ fraction a <
           fixed 2 (minute b) @ '':'' @ fixed 2 (second b) @ fraction b \<longleftrightarrow>
      minute a < minute b \<or> (minute a = minute b \<and>
        (second a < second b \<or> (second a = second b \<and> microsecond a < microsecond b)))"
    unfolding fixed_append_less[OF a(5) b(5)] using 6 by simp
  have 4: "fixed 2 (hour a) @ '':'' @ fixed 2 (minute a) @ '':'' @ fixed 2 (second a) @ fraction a <
           fixed 2 (hour b) @ '':'' @ fixed 2 (minute b) @ '':'' @ fixed 2 (second b) @ fraction b \<longleftrightarrow>
      hour a < hour b \<or> (hour a = hour b \<and> (minute a < minute b \<or> (minute a = minute b \<and>
        (second a < second b \<or> (second a = second b \<and> microsecond a < microsecond b)))))"
    unfolding fixed_append_less[OF a(4) b(4)] using 5 by simp
  have 3: "fixed 2 (day a) @ ''T'' @ fixed 2 (hour a) @ '':'' @ fixed 2 (minute a) @ '':'' @
             fixed 2 (second a) @ fraction a <
           fixed 2 (day b) @ ''T'' @ fixed 2 (hour b) @ '':'' @ fixed 2 (minute b) @ '':'' @
             fixed 2 (second b) @ fraction b \<longleftrightarrow>
      day a < day b \<or> (day a = day b \<and>
      (hour a < hour b \<or> (hour a = hour b \<and> (minute a < minute b \<or> (minute a = minute b \<and>
        (second a < second b \<or> (second a = second b \<and> microsecond a < microsecond b)))))))"
    unfolding fixed_append_less[OF a(3) b(3)] using 4 by simp
  have 2: "fixed 2 (month a) @ ''-'' @ fixed 2 (day a) @ ''T'' @ fixed 2 (hour a) @ '':'' @
             fixed 2 (minute a) @ '':'' @ fixed 2 (second a) @ fraction a <
           fixed 2 (month b) @ ''-'' @ fixed 2 (day b) @ ''T'' @ fixed 2 (hour b) @ '':'' @
             fixed 2 (minute b) @ '':'' @ fixed 2 (second b) @ fraction b \<longleftrightarrow>
      month a < month b \<or> (month a = month b \<and> (day a < day b \<or> (day a = day b \<and>
      (hour a < hour b \<or> (hour a = hour b \<and> (minute a < minute b \<or> (minute a = minute b \<and>
        (second a < second b \<or> (second a = second b \<and> microsecond a < microsecond b)))))))))"
    unfolding fixed_append_less[OF a(2) b(2)] using 3 by simp
  have 1: "isoformat a < isoformat b \<longleftrightarrow>
      year a < year b \<or> (year a = year b \<and>
      (month a < month b \<or> (month a = month b \<and> (day a < day b \<or> (day a = day b \<and>
      (hour a < hour b \<or> (hour a = hour b \<and> (minute a < minute b \<or> (minute a = minute b \<and>
        (second a < second b \<or> (second a = second b \<and> microsecond a < microsecond b)))))))))))"
    unfolding isoformat_fixed[OF assms(1)] isoformat_fixed[OF assms(2)]
      fixed_append_less[OF a(1) b(1)] using 2 by simp
  show ?thesis unfolding 1 dt_less_def dt_fields_def by simp
qed

lemma dt_fields_inj: "dt_fields a = dt_fields b \<longleftrightarrow> a = b" for a b :: datetime
  by (cases a; cases b) (auto simp: dt_fields_def)

lemma dt_le_less: "dt_le a b \<longleftrightarrow> dt_less a b \<or> a = b"
  unfolding dt_le_def dt_less_def by (auto simp: dt_fields_inj[symmetric])

lemma isoformat_le_iff:
  assumes "valid_datetime a" "valid_datetime b"
  shows "isoformat a \<le> isoformat b \<longleftrightarrow> dt_le a b"
proof -
  have "isoformat a \<le> isoformat b \<longleftrightarrow> \<not> isoformat b < isoformat a" by auto
  also have "\<dots> \<longleftrightarrow> \<not> dt_less b a" by (simp add: isoformat_less_iff[OF assms(2,1)])
  also have "\<dots> \<longleftrightarrow> dt_le a b" unfolding dt_le_def dt_less_def by auto
  finally show ?thesis .
qed

lemma prev_day_valid:
  assumes "valid_datetime d" "prev_day d = Inr p"
  shows "valid_datetime p \<and> dt_less p d"
proof -
  consider (a) "1 < day d" | (b) "day d = 1" "1 < month d" | (c) "day d = 1" "month d = 1" "1 < year d"
    | (z) "day d = 1" "month d = 1" "year d = 1"
    using assms(1) unfolding valid_datetime_def by linarith
  then show ?thesis
  proof cases
    case a
    with assms show ?thesis
      by (auto simp: prev_day_def valid_datetime_def dt_less_def dt_fields_def)
  next
    case b
    with assms days_in_month_ge[of "year d" "month d - 1"] show ?thesis
      by (auto simp: prev_day_def valid_datetime_def dt_less_def dt_fields_def)
  next
    case c
    with assms show ?thesis
      by (auto simp: prev_day_def valid_datetime_def dt_less_def dt_fields_def days_in_month_def)
  next
    case z
    with assms show ?thesis by (simp add: prev_day_def)
  qed
qed

lemma minus_days_Suc:
  "minus_days d (Suc n) = (case minus_days d n of Inl x \<Rightarrow> Inl x | Inr p \<Rightarrow> prev_day p)"
proof (induction n arbitrary: d)
  case 0
  show ?case by (simp split: sum.splits)
next
  case (Suc n)
  have "minus_days d (Suc (Suc n)) =
      (case prev_day d of Inl x \<Rightarrow> Inl x | Inr p \<Rightarrow> minus_days p (Suc n))"
    by (rule minus_days.simps(2))
  also have "\<dots> = (case prev_day d of Inl x \<Rightarrow> Inl x
      | Inr p \<Rightarrow> (case minus_days p n of Inl x \<Rightarrow> Inl x | Inr q \<Rightarrow> prev_day q))"
    by (simp only: Suc.IH)
  also have "\<dots> = (case minus_days d (Suc n) of Inl x \<Rightarrow> Inl x | Inr q \<Rightarrow> prev_day q)"
    by (simp split: sum.splits)
  finally show ?case .
qed

lemma minus_days_valid:
  "valid_datetime d \<Longrightarrow> minus_days d n = Inr p \<Longrightarrow> valid_datetime p"
proof (induction n arbitrary: p)
  case 0
  then show ?case by simp
next
  case (Suc n)
  from Suc.prems(2) obtain q where q: "minus_days d n = Inr q" "prev_day q = Inr p"
    unfolding minus_days_Suc by (auto split: sum.splits)
  from Suc.IH[OF Suc.prems(1) q(1)] have "valid_datetime q" .
  from prev_day_valid[OF this q(2)] show ?case by simp
qed

lemma discovered_stamp [simp]: "discovered (stamp u d) = isoformat d"
  by (simp add: discovered_def stamp_def get_def update_conv')

lemma concat_stamped_log:
  "concat (map snd (stamped_log slog)) = map (\<lambda>(u, d). stamp u d) (concat (map snd slog))"
  by (induction slog) (auto simp: stamped_log_def)

lemma count_recent_discovered:
  "count_recent updates th 0 = length (filter (\<lambda>x. th \<le> discovered x) (concat (map snd updates)))"
  by (simp add: count_recent_eq discovered_def)

lemma count_stamped_log:
  assumes "valid_datetime th"
    and "\<forall>(rt, uds)\<in>set slog. \<forall>(u, d)\<in>set uds. valid_datetime d"
  shows "count_recent (stamped_log slog) (isoformat th) 0 =
           length (filter (\<lambda>(u, d). dt_le th d) (concat (map snd slog)))"
proof -
  have v: "\<forall>(u, d)\<in>set (concat (map snd slog)). valid_datetime d"
    using assms(2) by fastforce
  have "filter ((\<lambda>x. isoformat th \<le> discovered x) \<circ> (\<lambda>(u, d). stamp u d)) (concat (map snd slog))
        = filter (\<lambda>(u, d). dt_le th d) (concat (map snd slog))"
  proof (rule filter_cong[OF refl])
    fix x assume x: "x \<in> set (concat (map snd slog))"
    obtain u d where ud: "x = (u, d)" by (cases x)
    with v x have "valid_datetime d" by blast
    then show "((\<lambda>x. isoformat th \<le> discovered x) \<circ> (\<lambda>(u, d). stamp u d)) x =
               (case x of (u, d) \<Rightarrow> dt_le th d)"
      by (simp add: ud isoformat_le_iff[OF assms(1)])
  qed
  then show ?thesis
    by (simp add: count_recent_discovered concat_stamped_log filter_map)
qed

lemma threshold_line_reached: "threshold_line (LogInfo (''Alert threshold reached: '' @ rest))"
  by (simp add: threshold_line_def)

lemma alert_fired_iff:
  assumes "regulatory_updates_db w = Some updates"
    and "minus_days (clock e (ticks w)) 7 = Inr th"
  shows "alert_fired e w \<longleftrightarrow> int (count_recent updates (isoformat th) 0) \<ge> alert_threshold e"
proof -
  define pre where "pre =
     (case client_alerts_db w of Some a \<Rightarrow> [] | None \<Rightarrow> [LogError ''Error loading client alerts'']) @
     (case clients_db w of Some c \<Rightarrow> [] | None \<Rightarrow> [LogError ''Error loading clients''])"
  have p: "\<not> list_ex threshold_line pre"
    by (simp add: pre_def threshold_line_def split: option.splits)
  show ?thesis
  proof (cases "int (count_recent updates (isoformat th) 0) \<ge> alert_threshold e")
    case True
    define reached where "reached = LogInfo (''Alert threshold reached: '' @
                     digits (count_recent updates (isoformat th) 0) @
                     '' updates in the last 7 days'')"
    have r: "threshold_line reached" unfolding reached_def by (rule threshold_line_reached)
    have "\<exists>post. drop (length (logs w)) (logs (snd (check_and_send_alerts e w))) =
       pre @ reached # post"
      using assms True
      by (cases "client_alerts_db w"; cases "clients_db w"; cases "alerts_write e")
        (simp_all add: check_and_send_alerts_def Let_def datetime_now_def
          send_alerts_to_clients_def send_loop_eq record_alert_def logger_info_def
          logger_error_def save_alert_history_def pre_def reached_def)
    then obtain post where "drop (length (logs w)) (logs (snd (check_and_send_alerts e w))) =
       pre @ reached # post" ..
    with r have "alert_fired e w" by (simp add: alert_fired_def)
    with True show ?thesis by simp
  next
    case False
    have "drop (length (logs w)) (logs (snd (check_and_send_alerts e w))) = pre"
      using assms False
      by (cases "client_alerts_db w"; cases "clients_db w")
        (simp_all add: check_and_send_alerts_def Let_def datetime_now_def logger_error_def pre_def)
    with p have "\<not> alert_fired e w" by (simp add: alert_fired_def)
    with False show ?thesis by simp
  qed
qed

lemma minus_days_8:
  "minus_days d 8 = (case minus_days d 7 of Inl x \<Rightarrow> Inl x | Inr p \<Rightarrow> prev_day p)"
proof -
  have e: "(8::nat) = Suc 7" by simp
  show ?thesis by (subst e) (rule minus_days_Suc)
qed

lemma stamped_at_threshold_counted: "count_recent [(rt, [stamp u th])] (isoformat th) 0 = 1"
  by (simp add: count_recent_discovered)

lemma stamped_day_before_not_counted:
  assumes "valid_datetime th" "minus_days now 7 = Inr th" "minus_days now 8 = Inr d8"
  shows "count_recent [(rt, [stamp u d8])] (isoformat th) 0 = 0"
proof -
  from assms(3) have p: "prev_day th = Inr d8" unfolding minus_days_8 assms(2) by simp
  from prev_day_valid[OF assms(1) p] have v8: "valid_datetime d8" and l: "dt_less d8 th" by simp_all
  from l have "isoformat d8 < isoformat th" by (simp add: isoformat_less_iff[OF v8 assms(1)])
  then have "\<not> isoformat th \<le> isoformat d8" by simp
  then show ?thesis by (simp add: count_recent_discovered)
qed

text \<open>
  Claim C4, as the code has it. The window is not a parameter: the evaluator compares
  with the time seven days before now. Take a log in which every record carries, as its
  discovery stamp, the ISO text of a valid date and time, an evaluation at a valid time
  \<open>now\<close> that has a day seven days earlier, and the log readable, whatever the
  alert history and the client registry are. The evaluator counts exactly the records,
  across all sources, discovered at or after \<open>now\<close> minus seven days: the lower bound
  is inclusive, there is no upper bound, and only the discovery stamp is read, whatever
  else the record holds. It takes the alert branch exactly when that count is at least the
  threshold, so a count of 2 against a threshold of 3 does not fire. A record discovered
  exactly seven days before is counted; one discovered eight days before is not.
\<close>

theorem recent_count_is_seven_day_window:
  assumes "valid_datetime now" and "minus_days now 7 = Inr th"
    and "\<forall>(rt, uds)\<in>set slog. \<forall>(u, d)\<in>set uds. valid_datetime d"
    and "regulatory_updates_db w = Some (stamped_log slog)"
    and "clock e (ticks w) = now"
  shows "count_recent (stamped_log slog) (isoformat th) 0 =
           length (filter (\<lambda>(u, d). dt_le th d) (concat (map snd slog))) \<and>
         (alert_fired e w \<longleftrightarrow>
            int (length (filter (\<lambda>(u, d). dt_le th d) (concat (map snd slog)))) \<ge> alert_threshold e) \<and>
         (alert_threshold e = 3 \<and>
            length (filter (\<lambda>(u, d). dt_le th d) (concat (map snd slog))) = 2 \<longrightarrow>
            \<not> alert_fired e w) \<and>
         count_recent [(rt, [stamp u th])] (isoformat th) 0 = 1 \<and>
         (\<forall>d8. minus_days now 8 = Inr d8 \<longrightarrow>
            count_recent [(rt, [stamp u d8])] (isoformat th) 0 = 0)"
proof -
  define n where "n = length (filter (\<lambda>(u, d). dt_le th d) (concat (map snd slog)))"
  have vth: "valid_datetime th" using assms(1,2) by (rule minus_days_valid)
  have c: "count_recent (stamped_log slog) (isoformat th) 0 = n"
    unfolding n_def using vth assms(3) by (rule count_stamped_log)
  have m: "minus_days (clock e (ticks w)) 7 = Inr th" unfolding assms(5) by (rule assms(2))
  have f: "alert_fired e w \<longleftrightarrow> int n \<ge> alert_threshold e"
    using alert_fired_iff[OF assms(4) m] unfolding c .
  have t: "alert_threshold e = 3 \<and> n = 2 \<longrightarrow> \<not> alert_fired e w"
  proof
    assume "alert_threshold e = 3 \<and> n = 2"
    then have "\<not> int n \<ge> alert_threshold e" by simp
    with f show "\<not> alert_fired e w" by blast
  qed
  have i: "count_recent [(rt, [stamp u th])] (isoformat th) 0 = 1"
    by (rule stamped_at_threshold_counted)
  have x: "\<forall>d8. minus_days now 8 = Inr d8 \<longrightarrow>
            count_recent [(rt, [stamp u d8])] (isoformat th) 0 = 0"
    using stamped_day_before_not_counted[OF vth assms(2)] by blast
  from c f t i x show ?thesis unfolding n_def by blast
qed

lemma valid_time0_day: "1 \<le> k \<Longrightarrow> k \<le> 30 \<Longrightarrow> valid_datetime (time0\<lparr>day := k\<rparr>)"
  by (simp add: valid_datetime_def time0_def days_in_month_def)

lemma minus7_time0: "minus_days time0 7 = Inr (time0\<lparr>day := 3\<rparr>)"
  by (simp add: time0_def prev_day_def eval_nat_numeral)

theorem recent_count_is_seven_day_window_witness:
  "count_recent (stamped_log slog4) (isoformat (time0\<lparr>day := 3\<rparr>)) 0 = 2 \<and>
   \<not> alert_fired env0 world4"
proof -
  have v: "valid_datetime time0" by (simp add: valid_datetime_def time0_def days_in_month_def)
  have s: "\<forall>(rt, uds)\<in>set slog4. \<forall>(u, d)\<in>set uds. valid_datetime d"
    by (simp add: slog4_def valid_time0_day)
  have w: "regulatory_updates_db world4 = Some (stamped_log slog4)"
    by (simp add: world4_def)
  have k: "clock env0 (ticks world4) = time0"
    by (simp add: env0_def world4_def world0_def time0_def)
  have n: "length (filter (\<lambda>(u, d). dt_le (time0\<lparr>day := 3\<rparr>) d) (concat (map snd slog4))) = 2"
    by (simp add: slog4_def dt_le_def dt_fields_def time0_def)
  have a: "alert_threshold env0 = 3" by (simp add: alert_threshold_def env0_def)
  note t = recent_count_is_seven_day_window[OF v minus7_time0 s w k]
  from t n have 1: "count_recent (stamped_log slog4) (isoformat (time0\<lparr>day := 3\<rparr>)) 0 = 2"
    by simp
  from t n a have 2: "\<not> alert_fired env0 world4" by simp
  from 1 2 show ?thesis ..
qed

lemma count_future: "count_recent (stamped_log slog_future) (isoformat (time0\<lparr>day := 3\<rparr>)) 0 = 1"
  by code_simp

lemma not_before_now: "\<not> dt_le (time0\<lparr>day := 11\<rparr>) time0"
  by (simp add: dt_le_def dt_fields_def time0_def)

lemma spec_count_future: "spec_window_count 7 time0 slog_future = 0"
  by (simp add: spec_window_count_def minus7_time0 slog_future_def not_before_now)

lemma minus1_time0: "minus_days time0 1 = Inr (time0\<lparr>day := 9\<rparr>)"
  by (simp add: time0_def prev_day_def)

lemma spec_count_two_days: "spec_window_count 1 time0 slog_two_days = 0"
  unfolding spec_window_count_def minus1_time0
  by (simp add: slog_two_days_def dt_le_def dt_fields_def time0_def)

lemma count_two_days:
  "count_recent (stamped_log slog_two_days) (isoformat (time0\<lparr>day := 3\<rparr>)) 0 = 1"
  by code_simp

theorem window_bounds_counterexample:
  "minus_days time0 7 = Inr (time0\<lparr>day := 3\<rparr>) \<and>
   count_recent (stamped_log slog_future) (isoformat (time0\<lparr>day := 3\<rparr>)) 0 = 1 \<and>
   spec_window_count 7 time0 slog_future = 0 \<and>
   count_recent (stamped_log slog_two_days) (isoformat (time0\<lparr>day := 3\<rparr>)) 0 = 1 \<and>
   spec_window_count 1 time0 slog_two_days = 0"
  using minus7_time0 count_future spec_count_future count_two_days spec_count_two_days by blast

end
